theory Spec2Isabelle
  imports Complex_Main
begin

section \<open>Text, the tables of the Python runtime, and the regular expressions of the source\<close>

text \<open>
  A Python \<^verbatim>\<open>str\<close> is a sequence of Unicode code points, so a text is a list of
  natural numbers (\<^verbatim>\<open>ord\<close> of each character). A literal of the source that is plain
  ASCII is written \<open>ustr ''...''\<close>; the Chinese keywords are written as their code points.

  The source relies on four pieces of the Python runtime that are driven by the Unicode
  database: \<^verbatim>\<open>str.lower\<close>, the class \<^verbatim>\<open>\w\<close>, the class \<^verbatim>\<open>\s\<close> (the same
  set that \<^verbatim>\<open>str.strip\<close> removes) and the comparison of a pattern character with a
  subject character under \<^verbatim>\<open>re.IGNORECASE\<close>. They are not code of the repository, so
  every function below takes them as the parameter \<open>U\<close>. The general theorems hold for
  every choice of these tables.
\<close>

type_synonym ustring = "nat list"

definition ustr :: "string \<Rightarrow> ustring" where
  "ustr s = map of_char s"

record tables =
  str_lower :: "ustring \<Rightarrow> ustring"
  is_word :: "nat \<Rightarrow> bool"
  is_space :: "nat \<Rightarrow> bool"
  ieq :: "nat \<Rightarrow> nat \<Rightarrow> bool"

text \<open>
  The tables of CPython on the code points below 128: \<^verbatim>\<open>A-Z\<close> lower to \<^verbatim>\<open>a-z\<close>,
  \<^verbatim>\<open>\w\<close> is \<^verbatim>\<open>[A-Za-z0-9_]\<close>, \<^verbatim>\<open>\s\<close> is the code points 9 to 13 and 28 to 32,
  and a pattern character matches a subject character when their lower cases are equal.
  Code points from 128 on are left alone by \<open>ascii_lower\<close> and belong to neither class;
  the closed examples below only use ASCII subject text, where nothing depends on that.
\<close>

definition ascii_lower :: "nat \<Rightarrow> nat" where
  "ascii_lower c = (if 65 \<le> c \<and> c \<le> 90 then c + 32 else c)"

definition ascii_word :: "nat \<Rightarrow> bool" where
  "ascii_word c \<longleftrightarrow> (48 \<le> c \<and> c \<le> 57) \<or> (65 \<le> c \<and> c \<le> 90) \<or> c = 95 \<or> (97 \<le> c \<and> c \<le> 122)"

definition ascii_space :: "nat \<Rightarrow> bool" where
  "ascii_space c \<longleftrightarrow> (9 \<le> c \<and> c \<le> 13) \<or> (28 \<le> c \<and> c \<le> 32)"

definition ascii_tables :: tables where
  "ascii_tables = \<lparr> str_lower = map ascii_lower, is_word = ascii_word,
     is_space = ascii_space, ieq = (\<lambda>p c. ascii_lower p = ascii_lower c) \<rparr>"

subsection \<open>Substring test, slices and strip\<close>

text \<open>\<^verbatim>\<open>k in s\<close> on two strings: \<open>k\<close> occurs in \<open>s\<close> as a contiguous run.\<close>

fun starts_with :: "ustring \<Rightarrow> ustring \<Rightarrow> bool" where
  "starts_with [] s = True"
| "starts_with (c # cs) [] = False"
| "starts_with (c # cs) (x # xs) = (c = x \<and> starts_with cs xs)"

fun str_in :: "ustring \<Rightarrow> ustring \<Rightarrow> bool" where
  "str_in k [] = (k = [])"
| "str_in k (x # xs) = (starts_with k (x # xs) \<or> str_in k xs)"

text \<open>\<^verbatim>\<open>s.strip()\<close>: the white space at both ends is removed.\<close>

definition str_strip :: "tables \<Rightarrow> ustring \<Rightarrow> ustring" where
  "str_strip U s = rev (dropWhile (is_space U) (rev (dropWhile (is_space U) s)))"

text \<open>\<^verbatim>\<open>sep.join(xs)\<close>.\<close>

fun str_join :: "ustring \<Rightarrow> ustring list \<Rightarrow> ustring" where
  "str_join sep [] = []"
| "str_join sep [x] = x"
| "str_join sep (x # y # ys) = x @ sep @ str_join sep (y # ys)"

subsection \<open>The regular expressions the source uses\<close>

text \<open>
  All patterns of the source are sequences of the items below, and every call passes
  \<^verbatim>\<open>re.IGNORECASE\<close>, so a literal is compared with \<open>ieq\<close>. \<open>Mark\<close> stands for
  the opening or the closing parenthesis of a capturing group: it consumes nothing and
  records the text that is left at that point.
\<close>

datatype rx =
    Lit nat
  | Bnd
  | Spaces0
  | Spaces1
  | Words1
  | Dots1
  | Alt "ustring list"
  | Mark

definition lits :: "string \<Rightarrow> rx list" where
  "lits s = map Lit (ustr s)"

fun word_opt :: "tables \<Rightarrow> nat option \<Rightarrow> bool" where
  "word_opt U None = False"
| "word_opt U (Some c) = is_word U c"

fun first_opt :: "ustring \<Rightarrow> nat option" where
  "first_opt [] = None"
| "first_opt (x # xs) = Some x"

text \<open>A literal alternative at the head of the subject: the previous character and the
  rest after it, or \<open>None\<close>.\<close>

fun lit_strip :: "tables \<Rightarrow> ustring \<Rightarrow> nat option \<Rightarrow> ustring \<Rightarrow> (nat option \<times> ustring) option" where
  "lit_strip U [] p s = Some (p, s)"
| "lit_strip U (c # cs) p [] = None"
| "lit_strip U (c # cs) p (x # xs) = (if ieq U c x then lit_strip U cs (Some x) xs else None)"

fun alt_strip :: "tables \<Rightarrow> ustring list \<Rightarrow> nat option \<Rightarrow> ustring \<Rightarrow> (nat option \<times> ustring) list" where
  "alt_strip U [] p s = []"
| "alt_strip U (a # as) p s =
     (case lit_strip U a p s of None \<Rightarrow> [] | Some r \<Rightarrow> [r]) @ alt_strip U as p s"

text \<open>
  The backtracking matcher, anchored at the head of the subject \<open>s\<close>, with \<open>p\<close> the
  character before it (\<open>None\<close> at the start of the string). It returns every way the
  pattern matches, in the order in which Python's engine tries them (a greedy repetition
  first takes as much as it can, an alternation tries its branches from left to right);
  each result is the list of marks and the text left after the match.
\<close>

fun rx_run :: "tables \<Rightarrow> rx list \<Rightarrow> nat option \<Rightarrow> ustring \<Rightarrow> (ustring list \<times> ustring) list" where
  "rx_run U [] p s = [([], s)]"
| "rx_run U (Lit c # rs) p [] = []"
| "rx_run U (Lit c # rs) p (x # xs) = (if ieq U c x then rx_run U rs (Some x) xs else [])"
| "rx_run U (Bnd # rs) p s =
     (if word_opt U p \<noteq> word_opt U (first_opt s) then rx_run U rs p s else [])"
| "rx_run U (Spaces0 # rs) p [] = rx_run U rs p []"
| "rx_run U (Spaces0 # rs) p (x # xs) =
     (if is_space U x then rx_run U (Spaces0 # rs) (Some x) xs else []) @ rx_run U rs p (x # xs)"
| "rx_run U (Spaces1 # rs) p [] = []"
| "rx_run U (Spaces1 # rs) p (x # xs) =
     (if is_space U x then rx_run U (Spaces1 # rs) (Some x) xs @ rx_run U rs (Some x) xs else [])"
| "rx_run U (Words1 # rs) p [] = []"
| "rx_run U (Words1 # rs) p (x # xs) =
     (if is_word U x then rx_run U (Words1 # rs) (Some x) xs @ rx_run U rs (Some x) xs else [])"
| "rx_run U (Dots1 # rs) p [] = []"
| "rx_run U (Dots1 # rs) p (x # xs) =
     (if x \<noteq> 10 then rx_run U (Dots1 # rs) (Some x) xs @ rx_run U rs (Some x) xs else [])"
| "rx_run U (Alt as # rs) p s =
     concat (map (\<lambda>r. rx_run U rs (fst r) (snd r)) (alt_strip U as p s))"
| "rx_run U (Mark # rs) p s = map (\<lambda>m. (s # fst m, snd m)) (rx_run U rs p s)"

text \<open>\<^verbatim>\<open>re.search\<close>: the first result at the leftmost position that has one.\<close>

fun rx_search :: "tables \<Rightarrow> rx list \<Rightarrow> nat option \<Rightarrow> ustring \<Rightarrow> (ustring list \<times> ustring) option" where
  "rx_search U rs p [] = (case rx_run U rs p [] of [] \<Rightarrow> None | m # ms \<Rightarrow> Some m)"
| "rx_search U rs p (x # xs) =
     (case rx_run U rs p (x # xs) of [] \<Rightarrow> rx_search U rs (Some x) xs | m # ms \<Rightarrow> Some m)"

definition re_search :: "tables \<Rightarrow> rx list \<Rightarrow> ustring \<Rightarrow> (ustring list \<times> ustring) option" where
  "re_search U rs s = rx_search U rs None s"

text \<open>
  \<^verbatim>\<open>re.findall\<close> for a pattern without groups: the matched texts, found from left to
  right without overlap. After a match the scan goes on where the match ended; after an
  empty match the engine must advance (\<open>adv\<close>): at the same position only a non-empty
  match is accepted, and from the next position on empty matches count again.
\<close>

function findall_from :: "tables \<Rightarrow> rx list \<Rightarrow> bool \<Rightarrow> nat option \<Rightarrow> ustring \<Rightarrow> ustring list" where
  "findall_from U rs adv p s =
     (case filter (\<lambda>m. \<not> adv \<or> length (snd m) < length s) (rx_run U rs p s) of
        [] \<Rightarrow> (case s of [] \<Rightarrow> [] | x # xs \<Rightarrow> findall_from U rs False (Some x) xs)
      | m # ms \<Rightarrow>
          (let n = length s - length (snd m) in
           if n = 0 then [] # findall_from U rs True p s
           else take n s # findall_from U rs False (Some (s ! (n - 1))) (drop n s)))"
  by pat_completeness auto
termination
proof (relation "measure (\<lambda>(U, rs, adv, p, s). 2 * length s + (if adv then 0 else 1))", goal_cases)
  case 1
  show ?case by simp
next
  case (2 U rs adv p s x xs)
  then show ?case by simp
next
  case (3 U rs adv p s m ms n)
  from 3(1) have "m \<in> set (filter (\<lambda>m. \<not> adv \<or> length (snd m) < length s) (rx_run U rs p s))"
    by simp
  then have "\<not> adv \<or> length (snd m) < length s" by simp
  with 3(2,3) show ?case by auto
next
  case (4 U rs adv p s m ms n)
  then show ?case by auto
qed

definition re_findall :: "tables \<Rightarrow> rx list \<Rightarrow> ustring \<Rightarrow> ustring list" where
  "re_findall U rs s = findall_from U rs False None s"

section \<open>The classifier (issue\_classifier.py)\<close>

text \<open>
  Scores are Python floats. Every score is a sum of products of a count and one of the
  constants 3.0, 2.0, 1.0, 0.5, so it is an integer or a half and is computed exactly as
  long as it stays below \<open>2 ^ 53\<close>; scores are modelled as real numbers.

  An exception is a value of \<open>py_error\<close>, and a function that can raise returns a sum,
  \<open>Inl\<close> for the exception. A constructor names the class of the exception and
  carries the text of \<^verbatim>\<open>str(e)\<close> where that text varies. \<open>ClientError\<close> stands for
  an exception of any class derived from \<^verbatim>\<open>Exception\<close> that the client of the
  generative model raises (a connection error, a timeout, an error status). The classes
  \<^verbatim>\<open>KeyboardInterrupt\<close> and \<^verbatim>\<open>SystemExit\<close> derive from \<^verbatim>\<open>BaseException\<close>
  and not from \<^verbatim>\<open>Exception\<close>.
\<close>

datatype py_error =
    KeyError ustring
  | ZeroDivisionError
  | IndexError ustring
  | AttributeError ustring
  | TypeError ustring
  | ClientError ustring
  | KeyboardInterrupt
  | SystemExit ustring

definition and_then :: "py_error + 'a \<Rightarrow> ('a \<Rightarrow> py_error + 'b) \<Rightarrow> py_error + 'b" where
  "and_then r f = (case r of Inl e \<Rightarrow> Inl e | Inr v \<Rightarrow> f v)"

datatype category = Bug | Enhancement | Other

subsection \<open>The tables of \<^verbatim>\<open>IssueClassifier.__init__\<close>\<close>

text \<open>A dictionary keeps the order in which its keys were written.\<close>

definition bug_keywords :: "(ustring \<times> ustring list) list" where
  "bug_keywords =
    [(ustr ''high'',
      [ustr ''crash'', ustr ''broken'', ustr ''error'', ustr ''exception'',
       ustr ''failed'', ustr ''failure'', ustr ''bug'', ustr ''issue'', ustr ''incorrect'',
       ustr ''wrong'', ustr ''unexpected'', ustr ''regression'', ustr ''defect'',
       ustr ''glitch'', ustr ''flaw'', [23849, 28291], [38169, 35823], [22833, 36133],
       [24322, 24120], [25925, 38556], [32570, 38519], [38382, 39064],
       [19981, 27491, 30830], [24847, 22806]]),
     (ustr ''medium'',
      [ustr ''fix'', ustr ''patch'', ustr ''repair'', ustr ''debug'',
       ustr ''troubleshoot'', ustr ''not working'', ustr ''does not work'',
       ustr ''unable to'', ustr ''cannot'', [99, 97, 110, 39, 116],
       [119, 111, 110, 39, 116], [100, 111, 101, 115, 110, 39, 116], ustr ''problem'',
       ustr ''conflict'', [20462, 22797], [35843, 35797], [26080, 27861], [19981, 33021],
       [20914, 31361], [35299, 20915], [22788, 29702]]),
     (ustr ''low'',
      [ustr ''improve'', ustr ''optimize'', ustr ''refactor'', ustr ''cleanup'',
       ustr ''update'', ustr ''upgrade'', ustr ''migrate'', [25913, 36827], [20248, 21270],
       [37325, 26500], [28165, 29702], [26356, 26032], [21319, 32423], [36801, 31227]])]"

definition enhancement_keywords :: "(ustring \<times> ustring list) list" where
  "enhancement_keywords =
    [(ustr ''high'',
      [ustr ''feature'', ustr ''enhancement'', ustr ''add'', ustr ''new'',
       ustr ''implement'', ustr ''introduce'', ustr ''support'', ustr ''request'',
       ustr ''propose'', ustr ''suggest'', ustr ''wish'', ustr ''extend'', ustr ''expand'',
       ustr ''create'', [21151, 33021], [22686, 24378], [28155, 21152], [26032, 22686],
       [23454, 29616], [24341, 20837], [25903, 25345], [35831, 27714], [24314, 35758],
       [24076, 26395], [25193, 23637], [21019, 24314]]),
     (ustr ''medium'',
      [ustr ''allow'', ustr ''enable'', ustr ''provide'', ustr ''option'',
       ustr ''setting'', ustr ''config'', ustr ''custom'', ustr ''ability'',
       ustr ''capability'', ustr ''integration'', ustr ''api'', ustr ''interface'',
       ustr ''module'', [20801, 35768], [21551, 29992], [25552, 20379], [36873, 39033],
       [35774, 32622], [37197, 32622], [33258, 23450, 20041], [33021, 21147],
       [38598, 25104], [25509, 21475], [27169, 22359]]),
     (ustr ''low'',
      [ustr ''improve'', ustr ''enhance'', ustr ''upgrade'', ustr ''extend'',
       ustr ''expand'', ustr ''modify'', ustr ''change'', [25913, 36827], [22686, 24378],
       [21319, 32423], [25193, 23637], [20462, 25913], [21464, 26356]])]"

definition template_patterns :: "(category \<times> rx list list) list" where
  "template_patterns =
    [(Bug,
      [lits ''bug'' @ [Spaces1] @ lits ''report'' @ [Spaces1] @ lits ''template'',
       lits ''bug'' @ [Spaces1] @ lits ''template'',
       lits ''issue'' @ [Spaces1] @ lits ''template'',
       lits ''error'' @ [Spaces1] @ lits ''report'',
       map Lit [25925, 38556, 25253, 21578, 27169, 26495],
       map Lit [38382, 39064, 25253, 21578, 27169, 26495]]),
     (Enhancement,
      [lits ''feature'' @ [Spaces1] @ lits ''request'' @ [Spaces1] @ lits ''template'',
       lits ''feature'' @ [Spaces1] @ lits ''template'',
       lits ''enhancement'' @ [Spaces1] @ lits ''request'',
       map Lit [21151, 33021, 35831, 27714, 27169, 26495],
       map Lit [21151, 33021, 24314, 35758, 27169, 26495]])]"

definition exclude_keywords :: "(ustring \<times> ustring list) list" where
  "exclude_keywords =
    [(ustr ''other'',
      [ustr ''question'', ustr ''help'', ustr ''discussion'', ustr ''info'',
       ustr ''information'', ustr ''clarification'', ustr ''documentation'',
       ustr ''readme'', ustr ''guide'', ustr ''tutorial'', ustr ''example'', ustr ''meta'',
       [38382, 39064], [24110, 21161], [35752, 35770], [20449, 24687], [35828, 26126],
       [25991, 26723], [25351, 21335], [25945, 31243], [31034, 20363], [20803]])]"

subsection \<open>\<^verbatim>\<open>_calculate_score\<close>\<close>

text \<open>
  \<^verbatim>\<open>r'\b' + re.escape(keyword) + r'\b'\<close>: the keyword taken literally between two
  word boundaries; \<open>keyword_matches\<close> is \<^verbatim>\<open>len(re.findall(pattern, text_lower, re.IGNORECASE))\<close>.
\<close>

definition keyword_pattern :: "ustring \<Rightarrow> rx list" where
  "keyword_pattern keyword = Bnd # map Lit keyword @ [Bnd]"

definition keyword_matches :: "tables \<Rightarrow> ustring \<Rightarrow> ustring \<Rightarrow> nat" where
  "keyword_matches U keyword text_lower = length (re_findall U (keyword_pattern keyword) text_lower)"

text \<open>The dictionary literal \<^verbatim>\<open>{'high': 3.0, 'medium': 2.0, 'low': 1.0}[weight_level]\<close>;
  another key raises \<^verbatim>\<open>KeyError\<close>.\<close>

definition weight_multiplier :: "ustring \<Rightarrow> py_error + real" where
  "weight_multiplier weight_level =
     (if weight_level = ustr ''high'' then Inr 3
      else if weight_level = ustr ''medium'' then Inr 2
      else if weight_level = ustr ''low'' then Inr 1
      else Inl (KeyError weight_level))"

text \<open>The inner loop over the keywords of one weight level, and the outer loop over the
  levels; \<open>total_score\<close> is the accumulator of the source.\<close>

fun score_keywords :: "tables \<Rightarrow> ustring \<Rightarrow> real \<Rightarrow> ustring list \<Rightarrow> real \<Rightarrow> real" where
  "score_keywords U text_lower w [] total_score = total_score"
| "score_keywords U text_lower w (keyword # keywords) total_score =
     score_keywords U text_lower w keywords
       (total_score + real (keyword_matches U keyword text_lower) * w)"

fun score_levels :: "tables \<Rightarrow> ustring \<Rightarrow> (ustring \<times> ustring list) list \<Rightarrow> real \<Rightarrow> py_error + real" where
  "score_levels U text_lower [] total_score = Inr total_score"
| "score_levels U text_lower ((weight_level, keywords) # rest) total_score =
     and_then (weight_multiplier weight_level)
       (\<lambda>w. score_levels U text_lower rest (score_keywords U text_lower w keywords total_score))"

definition calculate_score :: "tables \<Rightarrow> ustring \<Rightarrow> (ustring \<times> ustring list) list \<Rightarrow> py_error + real" where
  "calculate_score U text keyword_dict =
     (if text = [] then Inr 0
      else score_levels U (str_lower U text) keyword_dict 0)"

subsection \<open>\<^verbatim>\<open>_check_templates\<close>\<close>

fun any_pattern :: "tables \<Rightarrow> ustring \<Rightarrow> rx list list \<Rightarrow> bool" where
  "any_pattern U text_lower [] = False"
| "any_pattern U text_lower (pattern # patterns) =
     (if re_search U pattern text_lower \<noteq> None then True
      else any_pattern U text_lower patterns)"

fun templates_loop :: "tables \<Rightarrow> ustring \<Rightarrow> (category \<times> rx list list) list \<Rightarrow> real \<times> category" where
  "templates_loop U text_lower [] = (0, Other)"
| "templates_loop U text_lower ((cat, patterns) # rest) =
     (if any_pattern U text_lower patterns then (10, cat)
      else templates_loop U text_lower rest)"

definition check_templates :: "tables \<Rightarrow> ustring \<Rightarrow> real \<times> category" where
  "check_templates U text =
     (if text = [] then (0, Other)
      else templates_loop U (str_lower U text) template_patterns)"

subsection \<open>\<^verbatim>\<open>_check_exclude_patterns\<close>\<close>

fun exclude_loop :: "tables \<Rightarrow> ustring \<Rightarrow> ustring list \<Rightarrow> nat \<Rightarrow> nat" where
  "exclude_loop U text_lower [] exclude_count = exclude_count"
| "exclude_loop U text_lower (keyword # keywords) exclude_count =
     exclude_loop U text_lower keywords (exclude_count + keyword_matches U keyword text_lower)"

definition check_exclude_patterns :: "tables \<Rightarrow> ustring \<Rightarrow> py_error + real" where
  "check_exclude_patterns U text =
     (if text = [] then Inr 0
      else case map_of exclude_keywords (ustr ''other'') of
             None \<Rightarrow> Inl (KeyError (ustr ''other''))
           | Some keywords \<Rightarrow> Inr (real (exclude_loop U (str_lower U text) keywords 0) * 2))"

subsection \<open>\<^verbatim>\<open>classify_issue\<close>\<close>

text \<open>
  \<open>labels\<close> is a list of strings; \<^verbatim>\<open>None\<close> and the empty list both fail the test
  \<^verbatim>\<open>if labels:\<close> and are the empty list here.
\<close>

definition combined_text :: "ustring \<Rightarrow> ustring \<Rightarrow> ustring list \<Rightarrow> ustring" where
  "combined_text title body labels =
     (if labels \<noteq> [] then (title @ ustr '' '' @ body) @ ustr '' '' @ str_join (ustr '' '') labels
      else title @ ustr '' '' @ body)"

fun label_bonus :: "tables \<Rightarrow> ustring list \<Rightarrow> real \<times> real \<Rightarrow> real \<times> real" where
  "label_bonus U [] (bug_score, enhancement_score) = (bug_score, enhancement_score)"
| "label_bonus U (label # labels) (bug_score, enhancement_score) =
     (let label_lower = str_lower U label in
      if str_in (ustr ''bug'') label_lower \<or> str_in (ustr ''fix'') label_lower
      then label_bonus U labels (bug_score + 2, enhancement_score)
      else if str_in (ustr ''feature'') label_lower \<or> str_in (ustr ''enhancement'') label_lower
              \<or> str_in (ustr ''request'') label_lower
      then label_bonus U labels (bug_score, enhancement_score + 2)
      else label_bonus U labels (bug_score, enhancement_score))"

definition decide :: "real \<Rightarrow> real \<Rightarrow> real \<Rightarrow> category" where
  "decide bug_score enhancement_score exclude_score =
     (let final_bug_score = bug_score - exclude_score * 0.5;
          final_enhancement_score = enhancement_score - exclude_score * 0.5;
          min_threshold = 1 in
      if exclude_score > 5 then Other
      else if final_bug_score > final_enhancement_score \<and> final_bug_score \<ge> min_threshold then Bug
      else if final_enhancement_score > final_bug_score \<and> final_enhancement_score \<ge> min_threshold
      then Enhancement
      else Other)"

definition classify_issue :: "tables \<Rightarrow> ustring \<Rightarrow> ustring \<Rightarrow> ustring list \<Rightarrow> py_error + category" where
  "classify_issue U title body labels =
     (let text = combined_text title body labels;
          (template_score, template_category) = check_templates U text in
      if template_score > 0 then Inr template_category
      else
        and_then (calculate_score U text bug_keywords) (\<lambda>bug_score.
        and_then (calculate_score U text enhancement_keywords) (\<lambda>enhancement_score.
        and_then (check_exclude_patterns U text) (\<lambda>exclude_score.
          let (bug_score', enhancement_score') = label_bonus U labels (bug_score, enhancement_score)
          in Inr (decide bug_score' enhancement_score' exclude_score)))))"

subsection \<open>\<^verbatim>\<open>get_classification_confidence\<close>\<close>

definition py_div :: "real \<Rightarrow> real \<Rightarrow> py_error + real" where
  "py_div a b = (if b = 0 then Inl ZeroDivisionError else Inr (a / b))"

definition get_classification_confidence ::
    "tables \<Rightarrow> ustring \<Rightarrow> ustring \<Rightarrow> ustring list \<Rightarrow> py_error + category \<times> real" where
  "get_classification_confidence U title body labels =
     (let text = combined_text title body labels in
      and_then (classify_issue U title body labels) (\<lambda>category.
      and_then (calculate_score U text bug_keywords) (\<lambda>bug_score.
      and_then (calculate_score U text enhancement_keywords) (\<lambda>enhancement_score.
      and_then (check_exclude_patterns U text) (\<lambda>exclude_score.
        case category of
          Bug \<Rightarrow> and_then (py_div bug_score (bug_score + enhancement_score + 1))
                   (\<lambda>q. Inr (category, min q 1))
        | Enhancement \<Rightarrow> and_then (py_div enhancement_score (bug_score + enhancement_score + 1))
                   (\<lambda>q. Inr (category, min q 1))
        | Other \<Rightarrow> and_then (py_div exclude_score (exclude_score + bug_score + enhancement_score + 1))
                   (\<lambda>q. Inr (category, q)))))))"

declare findall_from.simps [simp del]

section \<open>The suitability filter (analyze.py)\<close>

text \<open>
  An issue is the dictionary built by \<^verbatim>\<open>parse_markdown_files\<close>: its title and body are
  strings and its labels a list of strings; a missing key reads as the empty string or
  the empty list.
\<close>

record issue =
  issue_title :: ustring
  issue_body :: ustring
  issue_labels :: "ustring list"

subsection \<open>The tables of \<^verbatim>\<open>is_suitable_programming_issue\<close>\<close>

definition positive_keywords :: "ustring list" where
  "positive_keywords =
     [ustr ''implement'', ustr ''add'', ustr ''create'', ustr ''build'', ustr ''develop'',
      ustr ''feature'', ustr ''enhancement'', ustr ''optimization'', ustr ''refactor'',
      ustr ''improve'', ustr ''extend'', ustr ''integrate'', ustr ''support'',
      ustr ''algorithm'', ustr ''function'', ustr ''method'', ustr ''class'',
      ustr ''module'', ustr ''component'', ustr ''performance'', ustr ''efficiency'',
      ustr ''speed'', ustr ''memory'', ustr ''cache'', ustr ''optimize'']"

definition negative_keywords :: "ustring list" where
  "negative_keywords =
     [ustr ''typo'', ustr ''spelling'', ustr ''grammar'', ustr ''format'', ustr ''style'',
      ustr ''lint'', ustr ''cleanup'', ustr ''deprecated'', ustr ''remove'', ustr ''delete'',
      ustr ''security'', ustr ''vulnerability'', ustr ''hack'', ustr ''workaround'',
      ustr ''temporary'', ustr ''patch'', ustr ''hotfix'', ustr ''urgent'',
      ustr ''critical'', ustr ''broken build'', ustr ''missing import'',
      ustr ''syntax error'']"

definition cross_platform_keywords :: "ustring list" where
  "cross_platform_keywords =
     [ustr ''cross-platform'', ustr ''cross platform'', ustr ''platform independent'',
      ustr ''multiplatform'', ustr ''windows'', ustr ''macos'', ustr ''mac os'',
      ustr ''linux'', ustr ''ubuntu'', ustr ''debian'', ustr ''centos'', ustr ''ios'',
      ustr ''android'', ustr ''web'', ustr ''browser'', ustr ''chrome'', ustr ''firefox'',
      ustr ''safari'', ustr ''compatibility'', ustr ''portable'', ustr ''mobile'',
      ustr ''desktop'', ustr ''native'', ustr ''operating system'', ustr ''os-specific'',
      ustr ''platform-specific'']"

definition moderate_bug_keywords :: "ustring list" where
  "moderate_bug_keywords =
     [ustr ''algorithm'', ustr ''performance'', ustr ''optimization'', ustr ''logic'',
      ustr ''calculation'', ustr ''rendering'', ustr ''display'', ustr ''interaction'',
      ustr ''behavior'', ustr ''refactor'']"

definition positive_labels :: "ustring list" where
  "positive_labels =
     [ustr ''enhancement'', ustr ''feature'', ustr ''good first issue'',
      ustr ''help wanted'', ustr ''performance'', ustr ''optimization'', ustr ''refactor'',
      ustr ''algorithm'', ustr ''implementation'']"

definition negative_labels :: "ustring list" where
  "negative_labels =
     [ustr ''bug'', ustr ''documentation'', ustr ''maintenance'', ustr ''security'',
      ustr ''cleanup'', ustr ''chore'', ustr ''wontfix'', ustr ''duplicate'',
      ustr ''question'', ustr ''discussion'']"

definition complexity_indicators :: "ustring list" where
  "complexity_indicators =
     [ustr ''algorithm'', ustr ''data structure'', ustr ''optimization'',
      ustr ''performance'', ustr ''efficiency'', ustr ''scaling'', ustr ''memory'',
      ustr ''cpu'', ustr ''cache'', ustr ''parallel'', ustr ''async'', ustr ''concurrent'']"

definition specific_patterns :: "rx list list" where
  "specific_patterns =
     [lits ''implement'' @ [Spaces1, Words1],
      lits ''add'' @ [Spaces1, Words1, Spaces1] @ lits ''support'',
      lits ''create'' @ [Spaces1, Words1],
      lits ''build'' @ [Spaces1, Words1],
      lits ''develop'' @ [Spaces1, Words1],
      lits ''integrate'' @ [Spaces1, Words1]]"

definition bug_patterns :: "rx list list" where
  "bug_patterns =
     [lits ''fix'' @ [Spaces1,
        Alt [ustr ''algorithm'', ustr ''logic'', ustr ''calculation'', ustr ''performance'']],
      lits ''resolve'' @ [Spaces1,
        Alt [ustr ''performance'', ustr ''memory'', ustr ''rendering'']],
      lits ''correct'' @ [Spaces1,
        Alt [ustr ''behavior'', ustr ''logic'', ustr ''calculation'']],
      lits ''improve'' @ [Spaces1,
        Alt [ustr ''performance'', ustr ''efficiency'', ustr ''algorithm'']]]"

subsection \<open>\<^verbatim>\<open>is_suitable_programming_issue\<close>\<close>

text \<open>
  A loop that returns at the first keyword passing a test is \<open>find\<close> over the table; an
  \<^verbatim>\<open>any(...)\<close> is \<open>list_ex\<close>. The slice \<^verbatim>\<open>s[:n]\<close> is \<open>take n s\<close>. The message
  \<^verbatim>\<open>f"...: '{keyword}'"\<close> puts the keyword between two apostrophes (code point 39).
\<close>

definition quoted :: "ustring \<Rightarrow> ustring" where
  "quoted keyword = [39] @ keyword @ [39]"

definition is_suitable_programming_issue :: "tables \<Rightarrow> issue \<Rightarrow> bool \<times> ustring" where
  "is_suitable_programming_issue U i =
     (let title = str_lower U (issue_title i);
          body = str_lower U (issue_body i);
          labels = map (str_lower U) (issue_labels i) in
      case find (\<lambda>keyword. str_in keyword (take 100 title)) negative_keywords of
        Some keyword \<Rightarrow> (False, ustr ''Contains negative keyword: '' @ quoted keyword)
      | None \<Rightarrow>
      (case find (\<lambda>keyword. str_in keyword (str_lower U title)
                     \<or> str_in keyword (str_lower U (take 500 body))) cross_platform_keywords of
        Some keyword \<Rightarrow>
          (False, ustr ''Cross-platform issue not suitable for fixed environment: '' @ quoted keyword)
      | None \<Rightarrow>
      (case find (\<lambda>label. label \<in> set labels) negative_labels of
        Some label \<Rightarrow> (False, ustr ''Has negative label: '' @ quoted label)
      | None \<Rightarrow>
        (let has_positive_keyword =
               list_ex (\<lambda>keyword. str_in keyword title \<or> str_in keyword (take 500 body))
                 positive_keywords;
             has_positive_label = list_ex (\<lambda>label. label \<in> set labels) positive_labels;
             has_specific_pattern =
               list_ex (\<lambda>pattern. re_search U pattern title \<noteq> None) specific_patterns;
             has_complexity =
               list_ex (\<lambda>indicator. str_in indicator (str_lower U body)) complexity_indicators;
             has_moderate_bug =
               list_ex (\<lambda>keyword. str_in keyword (str_lower U title)
                          \<or> str_in keyword (str_lower U (take 500 body))) moderate_bug_keywords;
             has_bug_pattern =
               list_ex (\<lambda>pattern. re_search U pattern (str_lower U title) \<noteq> None) bug_patterns
         in
         if has_positive_label \<or> has_positive_keyword \<or> has_specific_pattern then
           (if has_complexity
            then (True, ustr ''Complex implementation challenge with good learning value'')
            else (True, ustr ''Clear implementation task suitable for programming exercise''))
         else if has_moderate_bug \<or> has_bug_pattern then
           (True, ustr ''Moderate bug fix with good learning value'')
         else if length title > 20 \<and> \<not> list_ex (\<lambda>neg. str_in neg title) negative_keywords then
           (True, ustr ''Substantial request based on title length and content'')
         else (False, ustr ''Lacks clear implementation requirements or learning value'')))))"

subsection \<open>\<^verbatim>\<open>is_suitable_programming_issue_llm\<close>\<close>

text \<open>
  The function builds two prompts, hands them to the client it was given, reads
  \<^verbatim>\<open>response.choices[0].message.content.strip()\<close> and parses that text. A
  triple-quoted literal of the source is written as the list of its lines: \<open>ulines\<close>
  ends every line with a newline (code point 10).
\<close>

definition ulines :: "ustring list \<Rightarrow> ustring" where
  "ulines ls = concat (map (\<lambda>l. l @ [10]) ls)"

definition system_prompt_intro :: ustring where
  "system_prompt_intro =
     ulines
     [ustr ''You are an expert evaluator of programming exercises and challenges. Your task is to analyze GitHub issues and determine if they would be suitable as programming problems for educational purposes.'',
      []]"

text \<open>The part that is added when \<^verbatim>\<open>reference_problems\<close> is a non-empty list; the
  remark after the expression in braces is text of the literal.\<close>

definition system_prompt_references :: "ustring list \<Rightarrow> ustring" where
  "system_prompt_references reference_problems =
     ulines
     [ustr ''REFERENCE EXAMPLES - Use these as benchmarks for suitable programming problems:'',
      [],
      str_join [10] (take 3 reference_problems) @ ustr ''  # Limit to 3 examples to avoid overly long prompts'',
      [],
      ustr ''Based on these reference examples, evaluate whether new issues match the desired complexity and educational value.'',
      []]"

definition system_prompt_criteria :: ustring where
  "system_prompt_criteria =
     ulines
     [ustr ''CRITERIA FOR SUITABILITY:'',
      ustr ''- Should involve implementing new functionality, features, or algorithms'',
      ustr ''- Should have clear requirements and goals'',
      ustr ''- Should be educational and provide learning value'',
      ustr ''- For bug fixes: should be moderate complexity fixes that provide learning opportunities'',
      ustr ''  '' @ [8226] @ ustr '' Acceptable: algorithm bugs, logic errors, performance issues, UI/UX improvements'',
      ustr ''  '' @ [8226] @ ustr '' Not acceptable: simple typo fixes, urgent security patches, trivial configuration changes'',
      ustr ''- Should have complexity similar to the reference examples (if provided)'',
      ustr ''- Should be challenging but achievable for programming practice'',
      ustr ''- **IMPORTANT: Should NOT involve cross-platform compatibility issues (fixed Docker environment)**'',
      [],
      ustr ''ENVIRONMENT CONSTRAINTS:'',
      ustr ''- All programming problems will be solved in a fixed Docker environment'',
      ustr ''- Issues requiring cross-platform compatibility, OS-specific features, or multiple platform support are NOT suitable'',
      ustr ''- Focus on core functionality, algorithms, and logic rather than platform integration'',
      [],
      ustr ''BUG FIX COMPLEXITY GUIDELINES:'',
      [10003] @ ustr '' Suitable bug fixes: algorithm implementation errors, performance bottlenecks, UI interaction bugs, data structure bugs, moderate refactoring needs'',
      [10007] @ ustr '' Unsuitable bug fixes: syntax errors, typos, missing imports, urgent security vulnerabilities, broken builds, simple CSS fixes'',
      [],
      ustr ''CROSS-PLATFORM EXCLUSIONS:'',
      [10007] @ ustr '' Not suitable: Windows/Mac/Linux compatibility, browser compatibility, mobile/desktop differences, OS-specific APIs, platform-specific UI, multi-environment deployment'',
      [],
      ustr ''Please respond with exactly one line in the format:'',
      ustr ''SUITABLE: [true/false] - [brief reason]'',
      [],
      ustr ''Examples of good responses:'',
      ustr ''SUITABLE: true - Clear implementation task with appropriate complexity'',
      ustr ''SUITABLE: false - Simple typo fix in documentation'',
      ustr ''SUITABLE: true - Algorithm optimization problem matching reference difficulty'',
      ustr ''SUITABLE: true - Moderate bug fix with educational value'',
      ustr ''SUITABLE: false - Critical security bug requiring immediate patch'',
      ustr ''SUITABLE: false - Cross-platform compatibility issue'',
      ustr ''SUITABLE: false - Platform-specific implementation'',
      ustr ''SUITABLE: false - Simple typo or syntax error fix'']"

text \<open>\<^verbatim>\<open>reference_problems\<close> defaults to \<^verbatim>\<open>None\<close>, which like the empty list is
  false in \<^verbatim>\<open>if reference_problems:\<close>.\<close>

definition system_prompt :: "ustring list option \<Rightarrow> ustring" where
  "system_prompt reference_problems =
     system_prompt_intro
     @ (case reference_problems of
          None \<Rightarrow> []
        | Some problems \<Rightarrow> (if problems = [] then [] else system_prompt_references problems))
     @ system_prompt_criteria"

definition user_prompt :: "issue \<Rightarrow> ustring" where
  "user_prompt i =
     (let title = issue_title i; body = issue_body i; labels = issue_labels i in
      str_join [10]
      [ustr ''Please analyze this GitHub issue and determine if it would be suitable as a programming exercise/challenge.'',
       [],
       ustr ''**Issue Title:** '' @ title,
       [],
       ustr ''**Labels:** '' @ (if labels \<noteq> [] then str_join (ustr '', '') labels else ustr ''None''),
       [],
       ustr ''**Description:**'',
       take 2000 body @ ustr ''...'',
       [],
       ustr ''Based on the criteria and reference examples provided, is this issue suitable as a programming problem?''])"

text \<open>The \<^verbatim>\<open>messages\<close> argument of the call: the role and the content of each message.\<close>

definition chat_messages :: "issue \<Rightarrow> ustring list option \<Rightarrow> (ustring \<times> ustring) list" where
  "chat_messages i reference_problems =
     [(ustr ''system'', system_prompt reference_problems), (ustr ''user'', user_prompt i)]"


text \<open>
  The client is an external service, so the model takes it as a function from the
  arguments of \<^verbatim>\<open>client.chat.completions.create(model=MODEL, messages=...)\<close> to what
  the call does: it raises an exception or it returns a response object. \<^verbatim>\<open>MODEL\<close> is
  read from the environment when the module is loaded and is a parameter here.

  A response is a Python object of which nothing is known in advance. It is modelled as a
  value built from \<^verbatim>\<open>None\<close>, strings, lists and plain data objects (a class name and
  attributes that hold such values again), so that every way in which
  \<^verbatim>\<open>response.choices[0].message.content.strip()\<close> can go wrong on such a value is a
  branch of the model.
\<close>

datatype pyobj =
    PyNone
  | PyStr ustring
  | PyList "pyobj list"
  | PyObject ustring "(string \<times> pyobj) list"

datatype client_outcome = Raises py_error | Returns pyobj

type_synonym chat_client = "ustring \<Rightarrow> (ustring \<times> ustring) list \<Rightarrow> client_outcome"

text \<open>\<^verbatim>\<open>isinstance(e, Exception)\<close>: \<^verbatim>\<open>KeyboardInterrupt\<close> and \<^verbatim>\<open>SystemExit\<close> derive
  from \<^verbatim>\<open>BaseException\<close> only.\<close>

fun is_exception :: "py_error \<Rightarrow> bool" where
  "is_exception KeyboardInterrupt = False"
| "is_exception (SystemExit msg) = False"
| "is_exception e = True"

text \<open>\<^verbatim>\<open>str(e)\<close>.\<close>

fun error_str :: "py_error \<Rightarrow> ustring" where
  "error_str (KeyError k) = quoted k"
| "error_str ZeroDivisionError = ustr ''float division by zero''"
| "error_str (IndexError msg) = msg"
| "error_str (AttributeError msg) = msg"
| "error_str (TypeError msg) = msg"
| "error_str (ClientError msg) = msg"
| "error_str KeyboardInterrupt = []"
| "error_str (SystemExit msg) = msg"

text \<open>The name of the type of a value, and the three operations the code applies to the
  response: reading an attribute, taking the element 0 and calling \<^verbatim>\<open>strip()\<close>.\<close>

fun type_name :: "pyobj \<Rightarrow> ustring" where
  "type_name PyNone = ustr ''NoneType''"
| "type_name (PyStr s) = ustr ''str''"
| "type_name (PyList xs) = ustr ''list''"
| "type_name (PyObject cls attrs) = cls"

definition no_attribute :: "pyobj \<Rightarrow> string \<Rightarrow> py_error" where
  "no_attribute obj name =
     AttributeError (quoted (type_name obj) @ ustr '' object has no attribute '' @ quoted (ustr name))"

fun py_getattr :: "pyobj \<Rightarrow> string \<Rightarrow> py_error + pyobj" where
  "py_getattr (PyObject cls attrs) name =
     (case map_of attrs name of
        Some v \<Rightarrow> Inr v
      | None \<Rightarrow> Inl (no_attribute (PyObject cls attrs) name))"
| "py_getattr obj name = Inl (no_attribute obj name)"

fun py_item0 :: "pyobj \<Rightarrow> py_error + pyobj" where
  "py_item0 (PyList []) = Inl (IndexError (ustr ''list index out of range''))"
| "py_item0 (PyList (x # xs)) = Inr x"
| "py_item0 (PyStr []) = Inl (IndexError (ustr ''string index out of range''))"
| "py_item0 (PyStr (c # cs)) = Inr (PyStr [c])"
| "py_item0 obj = Inl (TypeError (quoted (type_name obj) @ ustr '' object is not subscriptable''))"

fun py_strip :: "tables \<Rightarrow> pyobj \<Rightarrow> py_error + ustring" where
  "py_strip U (PyStr s) = Inr (str_strip U s)"
| "py_strip U (PyObject cls attrs) =
     (case map_of attrs ''strip'' of
        Some v \<Rightarrow> Inl (TypeError (quoted (type_name v) @ ustr '' object is not callable''))
      | None \<Rightarrow> Inl (no_attribute (PyObject cls attrs) ''strip''))"
| "py_strip U obj = Inl (no_attribute obj ''strip'')"

text \<open>\<^verbatim>\<open>SUITABLE:\s*(true|false)\s*-\s*(.+)\<close>\<close>

definition suitable_rx :: "rx list" where
  "suitable_rx =
     lits ''SUITABLE:'' @
     [Spaces0, Mark, Alt [ustr ''true'', ustr ''false''], Mark, Spaces0, Lit 45, Spaces0,
      Mark, Dots1, Mark]"

text \<open>\<^verbatim>\<open>match.group(k)\<close>: the text between the marks of the \<open>k\<close>-th pair of parentheses.\<close>

definition group_text :: "ustring list \<Rightarrow> nat \<Rightarrow> ustring" where
  "group_text marks k =
     take (length (marks ! (2 * k - 2)) - length (marks ! (2 * k - 1))) (marks ! (2 * k - 2))"

definition affirmative_words :: "ustring list" where
  "affirmative_words = [ustr ''true'', ustr ''suitable'', ustr ''yes'', ustr ''good'']"

definition parse_reply :: "tables \<Rightarrow> ustring \<Rightarrow> bool \<times> ustring" where
  "parse_reply U response_content =
     (case re_search U suitable_rx response_content of
        Some m \<Rightarrow>
          (let is_suitable = (str_lower U (group_text (fst m) 1) = ustr ''true'');
               reason = str_strip U (group_text (fst m) 2)
           in (is_suitable, ustr ''LLM analysis: '' @ reason))
      | None \<Rightarrow>
          (if list_ex (\<lambda>word. str_in word (str_lower U response_content)) affirmative_words
           then (True, ustr ''LLM assessment: '' @ take 100 response_content @ ustr ''...'')
           else (False, ustr ''LLM assessment: '' @ take 100 response_content @ ustr ''...'')))"

text \<open>The body of the \<^verbatim>\<open>try\<close> block: the call, the reading of the response and the
  parsing of the reply. An exception raised at any step ends the block.\<close>

definition llm_try :: "tables \<Rightarrow> client_outcome \<Rightarrow> py_error + bool \<times> ustring" where
  "llm_try U outcome =
     (case outcome of
        Raises e \<Rightarrow> Inl e
      | Returns response \<Rightarrow>
          and_then (py_getattr response ''choices'') (\<lambda>choices.
          and_then (py_item0 choices) (\<lambda>choice.
          and_then (py_getattr choice ''message'') (\<lambda>message.
          and_then (py_getattr message ''content'') (\<lambda>content.
          and_then (py_strip U content) (\<lambda>response_content.
          Inr (parse_reply U response_content)))))))"

text \<open>
  The function with its handler \<^verbatim>\<open>except Exception as e\<close>. The handler only takes
  exceptions that are instances of \<^verbatim>\<open>Exception\<close>; any other one leaves the function.
  The result is the list of the lines that were printed and either the returned pair or
  the exception that reaches the caller. The prompts are built before the
  \<^verbatim>\<open>try\<close>; on strings and lists of strings that cannot fail.
\<close>

definition is_suitable_programming_issue_llm ::
  "tables \<Rightarrow> ustring \<Rightarrow> issue \<Rightarrow> chat_client \<Rightarrow> ustring list option
     \<Rightarrow> ustring list \<times> (py_error + bool \<times> ustring)" where
  "is_suitable_programming_issue_llm U model i client reference_problems =
     (let messages = chat_messages i reference_problems in
      case llm_try U (client model messages) of
        Inr verdict \<Rightarrow> ([], Inr verdict)
      | Inl e \<Rightarrow>
          (if is_exception e
           then ([ustr ''Warning: LLM analysis failed: '' @ error_str e],
                 Inr (False, ustr ''LLM analysis error: '' @ error_str e))
           else ([], Inl e)))"

section \<open>Auxiliary notions for the statements\<close>

text \<open>A word boundary between the character \<open>p\<close> and the text \<open>s\<close> that follows it.\<close>

definition bnd :: "tables \<Rightarrow> nat option \<Rightarrow> ustring \<Rightarrow> bool" where
  "bnd U p s \<longleftrightarrow> word_opt U p \<noteq> word_opt U (first_opt s)"

text \<open>The keyword stands at the head of \<open>s\<close> as the pattern \<open>keyword_pattern\<close> asks:
  a boundary, the keyword's characters, a boundary.\<close>

definition kw_at :: "tables \<Rightarrow> ustring \<Rightarrow> nat option \<Rightarrow> ustring \<Rightarrow> bool" where
  "kw_at U kw p s \<longleftrightarrow> bnd U p s \<and>
     (case lit_strip U kw p s of None \<Rightarrow> False | Some r \<Rightarrow> bnd U (fst r) (snd r))"

text \<open>The weight of a level in the words of the specification: high 3.0, medium 2.0,
  low 1.0; and a lexicon all of whose levels are among these three.\<close>

definition tier_weight :: "ustring \<Rightarrow> real" where
  "tier_weight weight_level =
     (if weight_level = ustr ''high'' then 3 else if weight_level = ustr ''medium'' then 2 else 1)"

definition valid_levels :: "(ustring \<times> ustring list) list \<Rightarrow> bool" where
  "valid_levels keyword_dict =
     list_all (\<lambda>e. fst e = ustr ''high'' \<or> fst e = ustr ''medium'' \<or> fst e = ustr ''low'')
       keyword_dict"

text \<open>The sum over all levels and all keywords of a level of the number of matches times
  the weight of the level.\<close>

definition score_sum :: "tables \<Rightarrow> ustring \<Rightarrow> (ustring \<times> ustring list) list \<Rightarrow> real" where
  "score_sum U text_lower keyword_dict =
     (\<Sum>e\<leftarrow>keyword_dict. \<Sum>keyword\<leftarrow>snd e.
        real (keyword_matches U keyword text_lower) * tier_weight (fst e))"

text \<open>The three raw scores of a text blob, without any label bonus.\<close>

definition bug_raw :: "tables \<Rightarrow> ustring \<Rightarrow> real" where
  "bug_raw U text = (if text = [] then 0 else score_sum U (str_lower U text) bug_keywords)"

definition enhancement_raw :: "tables \<Rightarrow> ustring \<Rightarrow> real" where
  "enhancement_raw U text =
     (if text = [] then 0 else score_sum U (str_lower U text) enhancement_keywords)"

definition exclude_raw :: "tables \<Rightarrow> ustring \<Rightarrow> real" where
  "exclude_raw U text =
     (if text = [] then 0
      else 2 * (\<Sum>keyword\<leftarrow>snd (hd exclude_keywords).
                 real (keyword_matches U keyword (str_lower U text))))"

text \<open>The confidence formula of the specification for a category and three scores.\<close>

definition confidence_of :: "category \<Rightarrow> real \<Rightarrow> real \<Rightarrow> real \<Rightarrow> real" where
  "confidence_of c bug_score enhancement_score exclude_score =
     (case c of
        Bug \<Rightarrow> min (bug_score / (bug_score + enhancement_score + 1)) 1
      | Enhancement \<Rightarrow> min (enhancement_score / (bug_score + enhancement_score + 1)) 1
      | Other \<Rightarrow> exclude_score / (exclude_score + bug_score + enhancement_score + 1))"

text \<open>The two final scores of the decision: the raw score of the blob plus the label
  bonuses, minus half of the exclusion score.\<close>

definition final_bug :: "tables \<Rightarrow> ustring \<Rightarrow> ustring \<Rightarrow> ustring list \<Rightarrow> real" where
  "final_bug U title body labels =
     (let text = combined_text title body labels in
      fst (label_bonus U labels (bug_raw U text, enhancement_raw U text))
        - 0.5 * exclude_raw U text)"

definition final_enhancement :: "tables \<Rightarrow> ustring \<Rightarrow> ustring \<Rightarrow> ustring list \<Rightarrow> real" where
  "final_enhancement U title body labels =
     (let text = combined_text title body labels in
      snd (label_bonus U labels (bug_raw U text, enhancement_raw U text))
        - 0.5 * exclude_raw U text)"

text \<open>The template patterns in their declared order, each with its category.\<close>

definition all_patterns :: "(category \<times> rx list) list" where
  "all_patterns = concat (map (\<lambda>e. map (\<lambda>pattern. (fst e, pattern)) (snd e)) template_patterns)"

text \<open>The character before a position: the last one of the text in front of it, or the
  character \<open>p\<close> that precedes the whole text.\<close>

definition last_opt :: "nat option \<Rightarrow> ustring \<Rightarrow> nat option" where
  "last_opt p pre = (if pre = [] then p else Some (last pre))"

text \<open>The keyword stands at position \<open>i\<close> of the text \<open>s\<close>, and the number of matches
  that the scan finds from position \<open>i\<close> on; \<open>p\<close> is the character before the text.\<close>

definition kw_pos :: "tables \<Rightarrow> ustring \<Rightarrow> nat option \<Rightarrow> ustring \<Rightarrow> nat \<Rightarrow> bool" where
  "kw_pos U kw p s i \<longleftrightarrow> kw_at U kw (last_opt p (take i s)) (drop i s)"

definition count_at :: "tables \<Rightarrow> ustring \<Rightarrow> nat option \<Rightarrow> ustring \<Rightarrow> nat \<Rightarrow> nat" where
  "count_at U kw p s i =
     length (findall_from U (keyword_pattern kw) False (last_opt p (take i s)) (drop i s))"

text \<open>A lexicon without the empty keyword.\<close>

definition nonempty_keywords :: "(ustring \<times> ustring list) list \<Rightarrow> bool" where
  "nonempty_keywords keyword_dict = list_all (\<lambda>e. list_all (\<lambda>keyword. keyword \<noteq> []) (snd e)) keyword_dict"


text \<open>
  The keyword occurs at position \<open>i\<close> of the text as a whole word: its characters stand
  there up to case, with a word boundary in front of them and a word boundary after them.
\<close>

definition whole_word_at :: "tables \<Rightarrow> ustring \<Rightarrow> ustring \<Rightarrow> nat \<Rightarrow> bool" where
  "whole_word_at U kw s i \<longleftrightarrow>
     i + length kw \<le> length s
     \<and> list_all2 (ieq U) kw (take (length kw) (drop i s))
     \<and> bnd U (last_opt None (take i s)) (drop i s)
     \<and> bnd U (last_opt None (take (i + length kw) s)) (drop (i + length kw) s)"

text \<open>The keyword is listed exactly once in the whole lexicon.\<close>

definition listed_once :: "(ustring \<times> ustring list) list \<Rightarrow> ustring \<Rightarrow> bool" where
  "listed_once keyword_dict k \<longleftrightarrow> (\<Sum>e\<leftarrow>keyword_dict. count_list (snd e) k) = 1"

text \<open>
  In the text \<open>s\<close> followed by the character \<open>sep\<close> and the keyword \<open>k\<close>, every
  whole-word occurrence of a keyword of the lexicon lies inside \<open>s\<close>, except for the
  appended occurrence of \<open>k\<close> itself.
\<close>

definition only_appended ::
  "tables \<Rightarrow> (ustring \<times> ustring list) list \<Rightarrow> ustring \<Rightarrow> nat \<Rightarrow> ustring \<Rightarrow> bool" where
  "only_appended U keyword_dict s sep k \<longleftrightarrow>
     list_all (\<lambda>e. list_all (\<lambda>kw. list_all (\<lambda>q.
         whole_word_at U kw (s @ sep # k) q \<longrightarrow>
           q + length kw \<le> length s \<or> (kw = k \<and> q = Suc (length s)))
       [0..<length s + length k + 2]) (snd e)) keyword_dict"



section \<open>Facts about the matcher and the scorer\<close>

lemma ascii_fields:
  "str_lower ascii_tables = map ascii_lower" "is_word ascii_tables = ascii_word"
  "is_space ascii_tables = ascii_space" "ieq ascii_tables p c = (ascii_lower p = ascii_lower c)"
  by (simp_all add: ascii_tables_def)

lemma rx_run_lits:
  "rx_run U (map Lit kw @ rs) p s =
     (case lit_strip U kw p s of None \<Rightarrow> [] | Some r \<Rightarrow> rx_run U rs (fst r) (snd r))"
proof (induction kw arbitrary: p s)
  case Nil
  show ?case by simp
next
  case (Cons c cs)
  show ?case by (cases s) (simp_all add: Cons.IH)
qed

lemma lit_strip_drop:
  "lit_strip U kw p s = Some r \<Longrightarrow>
     snd r = drop (length kw) s \<and> length kw \<le> length s
     \<and> list_all2 (ieq U) kw (take (length kw) s)
     \<and> fst r = (if kw = [] then p else Some (s ! (length kw - 1)))"
proof (induction kw arbitrary: p s)
  case Nil
  then show ?case by auto
next
  case (Cons c cs)
  show ?case
  proof (cases s)
    case Nil
    with Cons.prems show ?thesis by simp
  next
    case (Cons x xs)
    with Cons.prems have ok: "ieq U c x" and r: "lit_strip U cs (Some x) xs = Some r"
      by (auto split: if_splits)
    from Cons.IH[OF r] Cons ok show ?thesis
      by (cases cs) auto
  qed
qed

lemma rx_run_keyword:
  "rx_run U (keyword_pattern kw) p s =
     (if kw_at U kw p s then [([], drop (length kw) s)] else [])"
proof (cases "lit_strip U kw p s")
  case None
  then show ?thesis
    using rx_run_lits[of U kw "[Bnd]" p s]
    by (simp add: keyword_pattern_def kw_at_def bnd_def)
next
  case (Some r)
  from lit_strip_drop[OF Some] have "snd r = drop (length kw) s" by simp
  with Some show ?thesis
    using rx_run_lits[of U kw "[Bnd]" p s]
    by (simp add: keyword_pattern_def kw_at_def bnd_def)
qed

lemma kw_at_length: "kw_at U kw p s \<Longrightarrow> length kw \<le> length s"
  by (auto simp: kw_at_def split: option.splits dest: lit_strip_drop)

lemma findall_kw_miss_Nil:
  "\<not> kw_at U kw p [] \<Longrightarrow> findall_from U (keyword_pattern kw) adv p [] = []"
  by (subst findall_from.simps) (simp add: rx_run_keyword)

lemma findall_kw_miss_Cons:
  "\<not> kw_at U kw p (x # xs) \<Longrightarrow>
     findall_from U (keyword_pattern kw) adv p (x # xs)
       = findall_from U (keyword_pattern kw) False (Some x) xs"
  by (subst findall_from.simps) (simp add: rx_run_keyword)

lemma findall_kw_hit:
  assumes "kw_at U kw p s" and "kw \<noteq> []"
  shows "findall_from U (keyword_pattern kw) adv p s
       = take (length kw) s
         # findall_from U (keyword_pattern kw) False (Some (s ! (length kw - 1))) (drop (length kw) s)"
proof -
  have a: "length kw \<le> length s" by (rule kw_at_length[OF assms(1)])
  have b: "0 < length kw" using assms(2) by simp
  from a b have c: "length s - length kw < length s" by linarith
  from a have d: "length s - (length s - length kw) = length kw" by linarith
  from assms c d show ?thesis
    by (subst findall_from.simps) (simp add: rx_run_keyword Let_def)
qed


lemma score_keywords_eq:
  "score_keywords U txt w kws t = t + (\<Sum>kw\<leftarrow>kws. real (keyword_matches U kw txt) * w)"
  by (induction kws arbitrary: t) (simp_all add: algebra_simps)

lemma weight_multiplier_valid:
  "l = ustr ''high'' \<or> l = ustr ''medium'' \<or> l = ustr ''low'' \<Longrightarrow>
     weight_multiplier l = Inr (tier_weight l)"
  by (auto simp: weight_multiplier_def tier_weight_def ustr_def)

lemma score_levels_eq:
  "valid_levels kd \<Longrightarrow> score_levels U txt kd t = Inr (t + score_sum U txt kd)"
proof (induction kd arbitrary: t)
  case Nil
  show ?case by (simp add: score_sum_def)
next
  case (Cons e kd)
  obtain l kws where e: "e = (l, kws)" by (cases e)
  from Cons.prems e have l: "l = ustr ''high'' \<or> l = ustr ''medium'' \<or> l = ustr ''low''"
    and kd: "valid_levels kd" by (simp_all add: valid_levels_def)
  show ?case
    using Cons.IH[OF kd] weight_multiplier_valid[OF l]
    by (simp add: e and_then_def score_keywords_eq score_sum_def algebra_simps)
qed

lemma calculate_score_eq:
  "valid_levels kd \<Longrightarrow>
     calculate_score U text kd = Inr (if text = [] then 0 else score_sum U (str_lower U text) kd)"
  by (simp add: calculate_score_def score_levels_eq)

lemma score_sum_nonneg: "0 \<le> score_sum U txt kd"
  unfolding score_sum_def
  by (intro sum_list_nonneg) (auto simp: tier_weight_def intro!: sum_list_nonneg)

lemma valid_bug: "valid_levels bug_keywords"
  by (simp add: valid_levels_def bug_keywords_def)

lemma valid_enhancement: "valid_levels enhancement_keywords"
  by (simp add: valid_levels_def enhancement_keywords_def)

lemma bug_score_eq: "calculate_score U text bug_keywords = Inr (bug_raw U text)"
  by (simp add: calculate_score_eq[OF valid_bug] bug_raw_def)

lemma enhancement_score_eq:
  "calculate_score U text enhancement_keywords = Inr (enhancement_raw U text)"
  by (simp add: calculate_score_eq[OF valid_enhancement] enhancement_raw_def)

lemma exclude_loop_eq:
  "exclude_loop U txt kws n = n + (\<Sum>kw\<leftarrow>kws. keyword_matches U kw txt)"
  by (induction kws arbitrary: n) simp_all

lemma real_sum_list: "real (\<Sum>x\<leftarrow>xs. f x) = (\<Sum>x\<leftarrow>xs. real (f x))"
  by (induction xs) simp_all

lemma exclude_score_eq: "check_exclude_patterns U text = Inr (exclude_raw U text)"
proof -
  have "map_of exclude_keywords (ustr ''other'') = Some (snd (hd exclude_keywords))"
    by (simp add: exclude_keywords_def)
  then show ?thesis
    by (simp add: check_exclude_patterns_def exclude_raw_def exclude_loop_eq real_sum_list)
qed

lemma raw_nonneg:
  "0 \<le> bug_raw U text" "0 \<le> enhancement_raw U text" "0 \<le> exclude_raw U text"
  by (auto simp: bug_raw_def enhancement_raw_def exclude_raw_def score_sum_nonneg
      intro!: sum_list_nonneg)

lemma classify_issue_eq:
  "classify_issue U title body labels =
     (let text = combined_text title body labels in
      if fst (check_templates U text) > 0 then Inr (snd (check_templates U text))
      else Inr (decide (fst (label_bonus U labels (bug_raw U text, enhancement_raw U text)))
                       (snd (label_bonus U labels (bug_raw U text, enhancement_raw U text)))
                       (exclude_raw U text)))"
  by (simp add: classify_issue_def Let_def and_then_def bug_score_eq enhancement_score_eq
      exclude_score_eq split: prod.splits)

lemma confidence_eq:
  "get_classification_confidence U title body labels =
     and_then (classify_issue U title body labels)
       (\<lambda>c. Inr (c, confidence_of c (bug_raw U (combined_text title body labels))
                       (enhancement_raw U (combined_text title body labels))
                       (exclude_raw U (combined_text title body labels))))"
proof -
  have pos: "bug_raw U x + enhancement_raw U x + 1 \<noteq> 0"
    "exclude_raw U x + bug_raw U x + enhancement_raw U x + 1 \<noteq> 0" for x
    using raw_nonneg[of U x] by linarith+
  show ?thesis
    by (simp add: get_classification_confidence_def Let_def and_then_def bug_score_eq
        enhancement_score_eq exclude_score_eq py_div_def pos confidence_of_def
        split: sum.splits category.splits)
qed

lemma confidence_of_bounds:
  assumes "0 \<le> b" "0 \<le> e" "0 \<le> x"
  shows "0 \<le> confidence_of c b e x \<and> confidence_of c b e x \<le> 1"
  using assms by (cases c) (simp_all add: confidence_of_def min_def)

lemma classify_total: "\<exists>c. classify_issue U title body labels = Inr c"
  by (simp add: classify_issue_eq Let_def)

lemmas kw_eval = keyword_matches_def re_findall_def findall_kw_miss_Nil findall_kw_miss_Cons
  findall_kw_hit kw_at_def bnd_def ascii_fields ascii_lower_def ascii_word_def ustr_def

lemmas template_eval = check_templates_def template_patterns_def lits_def re_search_def
  ascii_fields ascii_lower_def ascii_space_def ustr_def

lemma ex_fix_blob: "combined_text (ustr ''fix'') [] [] = ustr ''fix ''"
  by (simp add: combined_text_def ustr_def)

lemma ex_fix_templates: "check_templates ascii_tables (ustr ''fix '') = (0, Other)"
  by (simp add: template_eval)

lemma ex_fix_bug: "bug_raw ascii_tables (ustr ''fix '') = 2"
  by (simp add: bug_raw_def score_sum_def bug_keywords_def tier_weight_def kw_eval)

lemma ex_fix_enhancement: "enhancement_raw ascii_tables (ustr ''fix '') = 0"
  by (simp add: enhancement_raw_def score_sum_def enhancement_keywords_def tier_weight_def kw_eval)

lemma ex_fix_exclude: "exclude_raw ascii_tables (ustr ''fix '') = 0"
  by (simp add: exclude_raw_def exclude_keywords_def kw_eval)

section \<open>The decision of the classifier\<close>

text \<open>
  Claim C2. When the template matcher returns the score 0 on the blob of title, body and
  labels, \<open>classify_issue\<close> returns \<open>Other\<close> whenever the exclusion score is above 5.0,
  whatever the final scores are; otherwise it returns \<open>Bug\<close> exactly when the final bug
  score is above the final enhancement score and at least 1.0, \<open>Enhancement\<close> exactly in
  the symmetric case, and \<open>Other\<close> in every remaining case, in particular when the two
  final scores are equal. The final scores include the label bonuses and subtract half of
  the exclusion score.
\<close>

theorem classify_decision:
  assumes "fst (check_templates U (combined_text title body labels)) = 0"
  shows "(exclude_raw U (combined_text title body labels) > 5
            \<longrightarrow> classify_issue U title body labels = Inr Other)
       \<and> (\<not> exclude_raw U (combined_text title body labels) > 5 \<longrightarrow>
            (classify_issue U title body labels = Inr Bug \<longleftrightarrow>
               final_bug U title body labels > final_enhancement U title body labels
               \<and> final_bug U title body labels \<ge> 1)
          \<and> (classify_issue U title body labels = Inr Enhancement \<longleftrightarrow>
               final_enhancement U title body labels > final_bug U title body labels
               \<and> final_enhancement U title body labels \<ge> 1)
          \<and> (classify_issue U title body labels = Inr Other \<longleftrightarrow>
               \<not> (final_bug U title body labels > final_enhancement U title body labels
                    \<and> final_bug U title body labels \<ge> 1)
               \<and> \<not> (final_enhancement U title body labels > final_bug U title body labels
                    \<and> final_enhancement U title body labels \<ge> 1)))
       \<and> (final_bug U title body labels = final_enhancement U title body labels
            \<longrightarrow> classify_issue U title body labels = Inr Other)"
  using assms
  by (auto simp: classify_issue_eq Let_def decide_def final_bug_def final_enhancement_def)

theorem classify_decision_witness:
  "fst (check_templates ascii_tables (combined_text (ustr ''fix'') [] [])) = 0
   \<and> classify_issue ascii_tables (ustr ''fix'') [] [] = Inr Bug"
proof -
  have h: "fst (check_templates ascii_tables (combined_text (ustr ''fix'') [] [])) = 0"
    by (simp add: ex_fix_blob ex_fix_templates)
  have "final_bug ascii_tables (ustr ''fix'') [] [] = 2"
       "final_enhancement ascii_tables (ustr ''fix'') [] [] = 0"
       "exclude_raw ascii_tables (combined_text (ustr ''fix'') [] []) = 0"
    by (simp_all add: final_bug_def final_enhancement_def ex_fix_blob ex_fix_bug
        ex_fix_enhancement ex_fix_exclude)
  with classify_decision[OF h] h show ?thesis by simp
qed

section \<open>The confidence\<close>

lemma ex_fixbug_blob:
  "combined_text (ustr ''fix'') [] [ustr ''bug''] = ustr ''fix  bug''"
  "combined_text (ustr ''fix'') (ustr '' bug'') [] = ustr ''fix  bug''"
  by (simp_all add: combined_text_def ustr_def)

lemma ex_fixbug_templates: "check_templates ascii_tables (ustr ''fix  bug'') = (0, Other)"
  by (simp add: template_eval)

lemma ex_fixbug_bug: "bug_raw ascii_tables (ustr ''fix  bug'') = 5"
  by (simp add: bug_raw_def score_sum_def bug_keywords_def tier_weight_def kw_eval)

lemma ex_fixbug_enhancement: "enhancement_raw ascii_tables (ustr ''fix  bug'') = 0"
  by (simp add: enhancement_raw_def score_sum_def enhancement_keywords_def tier_weight_def kw_eval)

lemma ex_fixbug_exclude: "exclude_raw ascii_tables (ustr ''fix  bug'') = 0"
  by (simp add: exclude_raw_def exclude_keywords_def kw_eval)

lemma ex_fixbug_bonus:
  "label_bonus ascii_tables [ustr ''bug''] (5, 0) = (7, 0)"
  by (simp add: ascii_fields ascii_lower_def ustr_def)

lemma ex_fixbug_classify:
  "classify_issue ascii_tables (ustr ''fix'') [] [ustr ''bug''] = Inr Bug"
  "classify_issue ascii_tables (ustr ''fix'') (ustr '' bug'') [] = Inr Bug"
  unfolding classify_issue_eq ex_fixbug_blob Let_def ex_fixbug_templates ex_fixbug_bug
    ex_fixbug_enhancement ex_fixbug_exclude ex_fixbug_bonus
  by (simp_all add: decide_def)

text \<open>
  Claim C4. \<open>get_classification_confidence\<close> returns the category that \<open>classify_issue\<close>
  returns on the same input, and its confidence is the formula applied to the raw scores
  of the blob, which contain no label bonus; so two inputs with the same blob and the same
  category get the same result, whatever bonus their labels earned in the decision.
\<close>

theorem confidence_uses_raw_scores:
  "(\<exists>c. classify_issue U title body labels = Inr c
        \<and> get_classification_confidence U title body labels
            = Inr (c, confidence_of c (bug_raw U (combined_text title body labels))
                        (enhancement_raw U (combined_text title body labels))
                        (exclude_raw U (combined_text title body labels))))
   \<and> (combined_text title body labels = combined_text title' body' labels'
        \<longrightarrow> classify_issue U title body labels = classify_issue U title' body' labels'
        \<longrightarrow> get_classification_confidence U title body labels
            = get_classification_confidence U title' body' labels')"
proof -
  obtain c where c: "classify_issue U title body labels = Inr c"
    using classify_total by blast
  then show ?thesis
    by (auto simp: confidence_eq and_then_def)
qed

theorem confidence_uses_raw_scores_witness:
  "combined_text (ustr ''fix'') [] [ustr ''bug''] = combined_text (ustr ''fix'') (ustr '' bug'') []
   \<and> label_bonus ascii_tables [ustr ''bug''] (5, 0) \<noteq> label_bonus ascii_tables [] (5, 0)
   \<and> get_classification_confidence ascii_tables (ustr ''fix'') [] [ustr ''bug'']
       = get_classification_confidence ascii_tables (ustr ''fix'') (ustr '' bug'') []
   \<and> get_classification_confidence ascii_tables (ustr ''fix'') [] [ustr ''bug''] = Inr (Bug, 5 / 6)"
proof -
  have b: "combined_text (ustr ''fix'') [] [ustr ''bug'']
             = combined_text (ustr ''fix'') (ustr '' bug'') []"
    by (simp add: ex_fixbug_blob)
  have k: "classify_issue ascii_tables (ustr ''fix'') [] [ustr ''bug'']
             = classify_issue ascii_tables (ustr ''fix'') (ustr '' bug'') []"
    by (simp add: ex_fixbug_classify)
  have nb: "label_bonus ascii_tables [ustr ''bug''] (5, 0) \<noteq> label_bonus ascii_tables [] (5, 0)"
    unfolding ex_fixbug_bonus by simp
  have g: "get_classification_confidence ascii_tables (ustr ''fix'') [] [ustr ''bug'']
             = Inr (Bug, 5 / 6)"
    unfolding confidence_eq ex_fixbug_classify ex_fixbug_blob ex_fixbug_bug
      ex_fixbug_enhancement ex_fixbug_exclude
    by (simp add: and_then_def confidence_of_def)
  from confidence_uses_raw_scores[of ascii_tables "ustr ''fix''" "[]" "[ustr ''bug'']"
      "ustr ''fix''" "ustr '' bug''" "[]"] b k
  have e: "get_classification_confidence ascii_tables (ustr ''fix'') [] [ustr ''bug'']
       = get_classification_confidence ascii_tables (ustr ''fix'') (ustr '' bug'') []"
    by blast
  from b nb e g show ?thesis by blast
qed

text \<open>
  Claim C5. \<open>get_classification_confidence\<close> always returns a result, its confidence lies
  between 0.0 and 1.0, and the denominators of the three formulas are strictly positive,
  so no division raises \<^verbatim>\<open>ZeroDivisionError\<close>.
\<close>

theorem confidence_bounds:
  "\<exists>c conf. get_classification_confidence U title body labels = Inr (c, conf)
      \<and> 0 \<le> conf \<and> conf \<le> 1
      \<and> 0 < bug_raw U (combined_text title body labels)
              + enhancement_raw U (combined_text title body labels) + 1
      \<and> 0 < exclude_raw U (combined_text title body labels)
              + bug_raw U (combined_text title body labels)
              + enhancement_raw U (combined_text title body labels) + 1
      \<and> py_div (bug_raw U (combined_text title body labels))
           (bug_raw U (combined_text title body labels)
              + enhancement_raw U (combined_text title body labels) + 1) \<noteq> Inl ZeroDivisionError"
proof -
  let ?x = "combined_text title body labels"
  obtain c where c: "classify_issue U title body labels = Inr c"
    using classify_total by blast
  have n: "0 \<le> bug_raw U ?x" "0 \<le> enhancement_raw U ?x" "0 \<le> exclude_raw U ?x"
    by (rule raw_nonneg)+
  from confidence_of_bounds[OF n, of c] n c show ?thesis
    by (simp add: confidence_eq and_then_def py_div_def)
qed

section \<open>The template matcher\<close>

lemma find_append_case:
  "find P (xs @ ys) = (case find P xs of Some x \<Rightarrow> Some x | None \<Rightarrow> find P ys)"
  by (induction xs) simp_all

lemma any_pattern_find:
  "find (\<lambda>cp. re_search U (snd cp) txt \<noteq> None) (map (\<lambda>pattern. (c, pattern)) ps)
     = (if any_pattern U txt ps
        then Some (c, the (find (\<lambda>pattern. re_search U pattern txt \<noteq> None) ps))
        else None)"
  by (induction ps) (simp_all del: not_None_eq)

lemma templates_loop_find:
  "templates_loop U txt tp =
     (case find (\<lambda>cp. re_search U (snd cp) txt \<noteq> None)
             (concat (map (\<lambda>e. map (\<lambda>pattern. (fst e, pattern)) (snd e)) tp)) of
        Some cp \<Rightarrow> (10, fst cp) | None \<Rightarrow> (0, Other))"
proof (induction tp)
  case Nil
  show ?case by simp
next
  case (Cons e tp)
  obtain c ps where e: "e = (c, ps)" by (cases e)
  show ?case
    by (simp add: e find_append_case any_pattern_find Cons.IH del: not_None_eq)
qed

lemma no_template_in_empty_text:
  "find (\<lambda>cp. re_search U (snd cp) [] \<noteq> None) all_patterns = None"
  by (simp add: all_patterns_def template_patterns_def lits_def re_search_def ustr_def
      del: not_None_eq)

lemma check_templates_find:
  "text \<noteq> [] \<or> str_lower U [] = [] \<Longrightarrow>
     check_templates U text =
       (case find (\<lambda>cp. re_search U (snd cp) (str_lower U text) \<noteq> None) all_patterns of
          Some cp \<Rightarrow> (10, fst cp) | None \<Rightarrow> (0, Other))"
  by (cases "text = []")
     (simp_all add: check_templates_def templates_loop_find all_patterns_def[symmetric]
        no_template_in_empty_text del: not_None_eq)

lemma check_templates_score:
  "fst (check_templates U text) = 0 \<or> fst (check_templates U text) = 10"
  by (simp add: check_templates_def templates_loop_find split: option.splits)

lemma rx_search_inside:
  assumes "\<And>p. rx_run U rs p (m @ post) \<noteq> []"
  shows "rx_search U rs q (pre @ m @ post) \<noteq> None"
proof (induction pre arbitrary: q)
  case Nil
  from assms[of q] show ?case
    by (cases "m @ post") (auto split: list.splits)
next
  case (Cons x pre)
  from Cons.IH[of "Some x"] show ?case
    by (auto split: list.splits)
qed

lemma bug_report_template_found:
  "re_search ascii_tables
     (lits ''bug'' @ [Spaces1] @ lits ''report'' @ [Spaces1] @ lits ''template'')
     (map ascii_lower (a @ ustr ''Bug Report Template'' @ b)) \<noteq> None"
proof -
  have "rx_run ascii_tables
          (lits ''bug'' @ [Spaces1] @ lits ''report'' @ [Spaces1] @ lits ''template'') p
          (map ascii_lower (ustr ''Bug Report Template'') @ map ascii_lower b) \<noteq> []" for p
    by (simp add: lits_def ustr_def ascii_fields ascii_lower_def ascii_space_def)
  from rx_search_inside[of ascii_tables _ _ _ None "map ascii_lower a", OF this]
  show ?thesis by (simp add: re_search_def)
qed

lemma bug_report_template_blob:
  "\<exists>a b. combined_text title (pre @ ustr ''Bug Report Template'' @ post) labels
           = a @ ustr ''Bug Report Template'' @ b"
proof (cases "labels = []")
  case True
  have "combined_text title (pre @ ustr ''Bug Report Template'' @ post) labels
          = (title @ ustr '' '' @ pre) @ ustr ''Bug Report Template'' @ post"
    using True by (simp add: combined_text_def)
  then show ?thesis by blast
next
  case False
  have "combined_text title (pre @ ustr ''Bug Report Template'' @ post) labels
          = (title @ ustr '' '' @ pre) @ ustr ''Bug Report Template''
              @ (post @ ustr '' '' @ str_join (ustr '' '') labels)"
    using False by (simp add: combined_text_def)
  then show ?thesis by blast
qed

lemma bug_report_template_check:
  "check_templates ascii_tables (a @ ustr ''Bug Report Template'' @ b) = (10, Bug)"
proof -
  have ne: "a @ ustr ''Bug Report Template'' @ b \<noteq> []" by (simp add: ustr_def)
  from bug_report_template_found[of a b] ne show ?thesis
    by (simp add: check_templates_def template_patterns_def ascii_fields del: not_None_eq)
qed

text \<open>
  Claim C3. The template matcher returns the score 10.0 with the category of the first
  pattern, in the declared order of categories and of patterns within a category (bug
  before enhancement), that is found anywhere in the lower-cased text, and (0.0, other)
  when no pattern is found; \<open>classify_issue\<close> returns the template's category whenever
  the template score of the blob is not zero; and a body that contains
  ``Bug Report Template'' is classified as a bug whatever else the title, the body and the
  labels contain.
\<close>

theorem template_first_match:
  "(text \<noteq> [] \<or> str_lower U [] = [] \<longrightarrow>
      check_templates U text =
        (case find (\<lambda>cp. re_search U (snd cp) (str_lower U text) \<noteq> None) all_patterns of
           Some cp \<Rightarrow> (10, fst cp) | None \<Rightarrow> (0, Other)))
   \<and> check_templates U [] = (0, Other)
   \<and> (fst (check_templates U (combined_text title body labels)) \<noteq> 0 \<longrightarrow>
        classify_issue U title body labels
          = Inr (snd (check_templates U (combined_text title body labels))))
   \<and> classify_issue ascii_tables title (pre @ ustr ''Bug Report Template'' @ post) labels
       = Inr Bug"
proof -
  have a: "text \<noteq> [] \<or> str_lower U [] = [] \<longrightarrow>
      check_templates U text =
        (case find (\<lambda>cp. re_search U (snd cp) (str_lower U text) \<noteq> None) all_patterns of
           Some cp \<Rightarrow> (10, fst cp) | None \<Rightarrow> (0, Other))"
    using check_templates_find by blast
  have b: "check_templates U [] = (0, Other)"
    by (simp add: check_templates_def)
  have c: "fst (check_templates U (combined_text title body labels)) \<noteq> 0 \<longrightarrow>
        classify_issue U title body labels
          = Inr (snd (check_templates U (combined_text title body labels)))"
    using check_templates_score[of U "combined_text title body labels"]
    by (auto simp: classify_issue_eq Let_def)
  obtain x y where
    "combined_text title (pre @ ustr ''Bug Report Template'' @ post) labels
       = x @ ustr ''Bug Report Template'' @ y"
    using bug_report_template_blob by blast
  then have d: "classify_issue ascii_tables title (pre @ ustr ''Bug Report Template'' @ post) labels
       = Inr Bug"
    by (simp add: classify_issue_eq Let_def bug_report_template_check)
  from a b c d show ?thesis by blast
qed

lemma ex_bug_template:
  "check_templates ascii_tables (ustr ''New Feature Template and a BUG   template '')
     = (10, Bug)"
  by (simp add: template_eval)

theorem template_first_match_witness:
  "ustr ''New Feature Template and a BUG   template '' \<noteq> []
   \<and> find (\<lambda>cp. re_search ascii_tables (snd cp)
              (str_lower ascii_tables (ustr ''New Feature Template and a BUG   template ''))
                \<noteq> None) all_patterns
       = Some (Bug, lits ''bug'' @ [Spaces1] @ lits ''template'')
   \<and> fst (check_templates ascii_tables
        (combined_text (ustr ''New Feature Template and a BUG   template'') [] [])) \<noteq> 0
   \<and> classify_issue ascii_tables (ustr ''New Feature Template and a BUG   template'') [] []
       = Inr Bug"
proof -
  have h1: "ustr ''New Feature Template and a BUG   template '' \<noteq> []
              \<or> str_lower ascii_tables [] = []"
    by (simp add: ustr_def)
  have blob: "combined_text (ustr ''New Feature Template and a BUG   template'') [] []
                = ustr ''New Feature Template and a BUG   template ''"
    by (simp add: combined_text_def ustr_def)
  have h2: "fst (check_templates ascii_tables
        (combined_text (ustr ''New Feature Template and a BUG   template'') [] [])) \<noteq> 0"
    by (simp add: blob ex_bug_template)
  have f: "find (\<lambda>cp. re_search ascii_tables (snd cp)
              (str_lower ascii_tables (ustr ''New Feature Template and a BUG   template ''))
                \<noteq> None) all_patterns
       = Some (Bug, lits ''bug'' @ [Spaces1] @ lits ''template'')"
    by (simp add: all_patterns_def template_eval del: not_None_eq)
  from template_first_match[of "ustr ''New Feature Template and a BUG   template ''"
      ascii_tables "ustr ''New Feature Template and a BUG   template''" "[]" "[]" "[]" "[]"]
    h1 h2 f blob
  show ?thesis by (simp add: ex_bug_template ustr_def)
qed

section \<open>The score as a sum\<close>

lemma keyword_matches_empty: "keyword_matches U kw [] = 0"
proof -
  have "\<not> kw_at U kw None []" by (simp add: kw_at_def bnd_def)
  then show ?thesis
    by (simp add: keyword_matches_def re_findall_def findall_kw_miss_Nil)
qed

lemma score_sum_empty: "score_sum U [] kd = 0"
  by (simp add: score_sum_def keyword_matches_empty)

lemma score_levels_invalid:
  "\<not> valid_levels kd \<Longrightarrow> \<exists>k. score_levels U txt kd t = Inl (KeyError k)"
proof (induction kd arbitrary: t)
  case Nil
  then show ?case by (simp add: valid_levels_def)
next
  case (Cons e kd)
  obtain l kws where e: "e = (l, kws)" by (cases e)
  show ?case
  proof (cases "l = ustr ''high'' \<or> l = ustr ''medium'' \<or> l = ustr ''low''")
    case True
    with Cons.prems e have "\<not> valid_levels kd" by (simp add: valid_levels_def)
    from Cons.IH[OF this] weight_multiplier_valid[OF True] show ?thesis
      by (simp add: e and_then_def)
  next
    case False
    then have "weight_multiplier l = Inl (KeyError l)"
      by (simp add: weight_multiplier_def)
    then show ?thesis by (simp add: e and_then_def)
  qed
qed

text \<open>
  Claim C6. For a lexicon whose weight levels are high, medium and low, the score of a
  text is the sum, over the levels and the keywords of each level, of the number of
  matches \<open>keyword_matches\<close> of the keyword in the lower-cased text (the whole-word,
  case-insensitive occurrences found from left to right without overlap) times the weight
  of the level (3.0, 2.0, 1.0). The score is never negative and the score of the empty
  text is 0.
\<close>

theorem score_is_weighted_sum:
  assumes "valid_levels keyword_dict"
  shows "calculate_score U text keyword_dict
           = Inr (if text = [] then 0 else score_sum U (str_lower U text) keyword_dict)
       \<and> (str_lower U [] = [] \<longrightarrow>
            calculate_score U text keyword_dict = Inr (score_sum U (str_lower U text) keyword_dict))
       \<and> (\<exists>v. calculate_score U text keyword_dict = Inr v \<and> 0 \<le> v)
       \<and> calculate_score U [] keyword_dict = Inr 0"
proof -
  have a: "calculate_score U text keyword_dict
           = Inr (if text = [] then 0 else score_sum U (str_lower U text) keyword_dict)"
    by (rule calculate_score_eq[OF assms])
  have b: "str_lower U [] = [] \<longrightarrow>
            calculate_score U text keyword_dict = Inr (score_sum U (str_lower U text) keyword_dict)"
    using a by (auto simp: score_sum_empty)
  have c: "\<exists>v. calculate_score U text keyword_dict = Inr v \<and> 0 \<le> v"
    by (simp add: a score_sum_nonneg)
  have d: "calculate_score U [] keyword_dict = Inr 0"
    by (simp add: calculate_score_def)
  from a b c d show ?thesis by simp
qed

lemma ex_crash_score:
  "calculate_score ascii_tables (ustr ''Crash: cannot update; crash'') bug_keywords = Inr 9"
  unfolding bug_score_eq
  by (simp add: bug_raw_def score_sum_def bug_keywords_def tier_weight_def kw_eval)

theorem score_is_weighted_sum_witness:
  "valid_levels bug_keywords
   \<and> score_sum ascii_tables (str_lower ascii_tables (ustr ''Crash: cannot update; crash''))
        bug_keywords = 9
   \<and> calculate_score ascii_tables [] bug_keywords = Inr 0"
proof -
  have h: "valid_levels bug_keywords" by (rule valid_bug)
  from score_is_weighted_sum[OF h, of ascii_tables "ustr ''Crash: cannot update; crash''"]
    ex_crash_score h
  show ?thesis by (simp add: ustr_def calculate_score_def)
qed

section \<open>The keyword filter\<close>

lemma starts_with_iff: "starts_with k s \<longleftrightarrow> (\<exists>post. s = k @ post)"
  by (induction k s rule: starts_with.induct) auto

lemma str_in_iff: "str_in k s \<longleftrightarrow> (\<exists>pre post. s = pre @ k @ post)"
proof (induction s)
  case Nil
  show ?case by auto
next
  case (Cons x xs)
  show ?case
  proof
    assume "str_in k (x # xs)"
    then consider "starts_with k (x # xs)" | "str_in k xs" by auto
    then show "\<exists>pre post. x # xs = pre @ k @ post"
    proof cases
      case 1
      then obtain post where "x # xs = [] @ k @ post" by (auto simp: starts_with_iff)
      then show ?thesis by blast
    next
      case 2
      then obtain pre post where "xs = pre @ k @ post" using Cons.IH by blast
      then have "x # xs = (x # pre) @ k @ post" by simp
      then show ?thesis by blast
    qed
  next
    assume "\<exists>pre post. x # xs = pre @ k @ post"
    then obtain pre post where e: "x # xs = pre @ k @ post" by blast
    show "str_in k (x # xs)"
    proof (cases pre)
      case Nil
      with e have "starts_with k (x # xs)" by (auto simp: starts_with_iff)
      then show ?thesis by simp
    next
      case (Cons y ys)
      with e have "xs = ys @ k @ post" by simp
      then have "str_in k xs" using Cons.IH by blast
      then show ?thesis by simp
    qed
  qed
qed

lemma negative_keyword_rejects:
  assumes "find (\<lambda>keyword. str_in keyword (take 100 (str_lower U (issue_title i))))
             negative_keywords = Some k"
  shows "is_suitable_programming_issue U i
           = (False, ustr ''Contains negative keyword: '' @ quoted k)"
  using assms by (simp add: is_suitable_programming_issue_def Let_def)

lemma ex_typo_title:
  "find (\<lambda>keyword. str_in keyword (take 100 (str_lower ascii_tables (ustr ''Fix typo in README''))))
     negative_keywords = Some (ustr ''typo'')"
  by (simp add: negative_keywords_def ascii_fields ascii_lower_def ustr_def)

lemma find_first:
  "find P xs = Some x \<Longrightarrow>
     \<exists>before after. xs = before @ x # after \<and> P x \<and> (\<forall>y\<in>set before. \<not> P y)"
proof (induction xs)
  case Nil
  then show ?case by simp
next
  case (Cons a xs)
  show ?case
  proof (cases "P a")
    case True
    with Cons.prems have "a # xs = [] @ x # xs \<and> P x \<and> (\<forall>y\<in>set []. \<not> P y)" by simp
    then show ?thesis by blast
  next
    case False
    with Cons.prems have "find P xs = Some x" by simp
    from Cons.IH[OF this] obtain before after where
      "xs = before @ x # after" "P x" "\<forall>y\<in>set before. \<not> P y" by blast
    with False have "a # xs = (a # before) @ x # after \<and> P x \<and> (\<forall>y\<in>set (a # before). \<not> P y)"
      by simp
    then show ?thesis by blast
  qed
qed

lemma find_is_first:
  "find P xs = Some x \<Longrightarrow> k0 \<in> set xs \<Longrightarrow> P k0
     \<Longrightarrow> \<forall>y\<in>set (takeWhile (\<lambda>x. x \<noteq> k0) xs). \<not> P y \<Longrightarrow> x = k0"
proof (induction xs)
  case Nil
  then show ?case by simp
next
  case (Cons a xs)
  show ?case
  proof (cases "a = k0")
    case True
    with Cons.prems show ?thesis by simp
  next
    case False
    with Cons.prems have "\<not> P a" by simp
    with Cons.prems False show ?thesis by (intro Cons.IH) auto
  qed
qed

text \<open>
  Claim C8, as amended. When the lower-cased title contains a negative keyword within its
  first 100 characters, \<open>is_suitable_programming_issue\<close> returns \<open>False\<close> with the
  reason ``Contains negative keyword: '' followed by, between apostrophes, the first
  keyword of the table that occurs there; this is the keyword of the hypothesis when no
  keyword listed before it occurs there. The verdict is the same for every body and every
  list of labels: no later rule is consulted. The title ``Fix typo in README'' is rejected
  for the keyword ``typo'' with every body and every list of labels.
\<close>

theorem negative_keyword_first:
  assumes "k0 \<in> set negative_keywords"
    and "take 100 (str_lower U (issue_title i)) = pre @ k0 @ post"
  shows "(\<exists>before k after.
            negative_keywords = before @ k # after
            \<and> (\<forall>k'\<in>set before.
                  \<not> (\<exists>pre' post'. take 100 (str_lower U (issue_title i)) = pre' @ k' @ post'))
            \<and> (\<exists>pre' post'. take 100 (str_lower U (issue_title i)) = pre' @ k @ post')
            \<and> is_suitable_programming_issue U i
                 = (False, ustr ''Contains negative keyword: '' @ [39] @ k @ [39])
            \<and> is_suitable_programming_issue U (i\<lparr>issue_body := b, issue_labels := l\<rparr>)
                 = (False, ustr ''Contains negative keyword: '' @ [39] @ k @ [39])
            \<and> ((\<forall>k'\<in>set (takeWhile (\<lambda>x. x \<noteq> k0) negative_keywords).
                   \<not> (\<exists>pre' post'. take 100 (str_lower U (issue_title i)) = pre' @ k' @ post'))
                 \<longrightarrow> k = k0))
       \<and> is_suitable_programming_issue ascii_tables
            \<lparr>issue_title = ustr ''Fix typo in README'', issue_body = b, issue_labels = l\<rparr>
           = (False, ustr ''Contains negative keyword: '' @ [39] @ ustr ''typo'' @ [39])"
proof -
  let ?t = "take 100 (str_lower U (issue_title i))"
  let ?P = "\<lambda>keyword. str_in keyword ?t"
  have P: "?P k = (\<exists>pre' post'. ?t = pre' @ k @ post')" for k by (rule str_in_iff)
  from assms(2) have p0: "?P k0" unfolding P by blast
  with assms(1) have "find ?P negative_keywords \<noteq> None"
    by (auto simp: find_None_iff)
  then obtain k where k: "find ?P negative_keywords = Some k" by blast
  from find_first[OF k] obtain before after where
    d: "negative_keywords = before @ k # after" and kp: "?P k"
    and nb: "\<forall>y\<in>set before. \<not> ?P y" by blast
  have r1: "is_suitable_programming_issue U i
              = (False, ustr ''Contains negative keyword: '' @ [39] @ k @ [39])"
    using negative_keyword_rejects[OF k] by (simp add: quoted_def)
  have r2: "is_suitable_programming_issue U (i\<lparr>issue_body := b, issue_labels := l\<rparr>)
              = (False, ustr ''Contains negative keyword: '' @ [39] @ k @ [39])"
    using negative_keyword_rejects[of U "i\<lparr>issue_body := b, issue_labels := l\<rparr>" k] k
    by (simp add: quoted_def)
  have r3: "(\<forall>k'\<in>set (takeWhile (\<lambda>x. x \<noteq> k0) negative_keywords).
                   \<not> (\<exists>pre' post'. ?t = pre' @ k' @ post')) \<longrightarrow> k = k0"
    using find_is_first[OF k assms(1) p0] unfolding P by blast
  have r4: "is_suitable_programming_issue ascii_tables
            \<lparr>issue_title = ustr ''Fix typo in README'', issue_body = b, issue_labels = l\<rparr>
           = (False, ustr ''Contains negative keyword: '' @ [39] @ ustr ''typo'' @ [39])"
    using negative_keyword_rejects[of ascii_tables
        "\<lparr>issue_title = ustr ''Fix typo in README'', issue_body = b, issue_labels = l\<rparr>"
        "ustr ''typo''"] ex_typo_title
    by (simp add: quoted_def)
  from nb have nb': "\<forall>k'\<in>set before. \<not> (\<exists>pre' post'. ?t = pre' @ k' @ post')"
    unfolding P .
  from kp have kp': "\<exists>pre' post'. ?t = pre' @ k @ post'" unfolding P .
  from d nb' kp' r1 r2 r3 r4 show ?thesis by blast
qed

theorem negative_keyword_first_witness:
  "ustr ''hotfix'' \<in> set negative_keywords
   \<and> take 100 (str_lower ascii_tables (ustr ''Urgent HOTFIX for the parser''))
       = ustr ''urgent '' @ ustr ''hotfix'' @ ustr '' for the parser''
   \<and> list_all (\<lambda>k'. \<not> str_in k'
                (take 100 (str_lower ascii_tables (ustr ''Urgent HOTFIX for the parser''))))
         (takeWhile (\<lambda>x. x \<noteq> ustr ''hotfix'') negative_keywords)
   \<and> is_suitable_programming_issue ascii_tables
        \<lparr>issue_title = ustr ''Urgent HOTFIX for the parser'',
         issue_body = ustr ''implement a cache'', issue_labels = [ustr ''feature'']\<rparr>
       = (False, ustr ''Contains negative keyword: '' @ [39] @ ustr ''hotfix'' @ [39])"
proof -
  let ?i = "\<lparr>issue_title = ustr ''Urgent HOTFIX for the parser'',
         issue_body = ustr ''implement a cache'', issue_labels = [ustr ''feature'']\<rparr>"
  let ?t = "take 100 (str_lower ascii_tables (ustr ''Urgent HOTFIX for the parser''))"
  have h1: "ustr ''hotfix'' \<in> set negative_keywords"
    by (simp add: negative_keywords_def)
  have e: "?t = ustr ''urgent '' @ ustr ''hotfix'' @ ustr '' for the parser''"
    by (simp add: ascii_fields ascii_lower_def ustr_def)
  then have h2: "take 100 (str_lower ascii_tables (issue_title ?i))
                   = ustr ''urgent '' @ ustr ''hotfix'' @ ustr '' for the parser''"
    by simp
  have h3: "list_all (\<lambda>k'. \<not> str_in k' ?t)
              (takeWhile (\<lambda>x. x \<noteq> ustr ''hotfix'') negative_keywords)"
    by (simp add: negative_keywords_def ascii_fields ascii_lower_def ustr_def)
  then have h3': "\<forall>k'\<in>set (takeWhile (\<lambda>x. x \<noteq> ustr ''hotfix'') negative_keywords).
         \<not> (\<exists>pre' post'. take 100 (str_lower ascii_tables (issue_title ?i)) = pre' @ k' @ post')"
    unfolding str_in_iff[symmetric] by (simp add: list_all_iff)
  from negative_keyword_first[OF h1 h2, of "[]" "[]"] h3'
  have "is_suitable_programming_issue ascii_tables ?i
       = (False, ustr ''Contains negative keyword: '' @ [39] @ ustr ''hotfix'' @ [39])"
    by blast
  with h1 e h3 show ?thesis by (intro conjI)
qed

text \<open>
  The claim as it is written says that the reason names the keyword that the title
  contains. The loop returns at the first keyword of the table that occurs: the title
  ``Urgent HOTFIX for the parser'' contains the negative keyword ``urgent'', and the
  reason names ``hotfix'', which stands before it in the table.
\<close>

theorem negative_keyword_not_named:
  "ustr ''urgent'' \<in> set negative_keywords
   \<and> take 100 (str_lower ascii_tables (ustr ''Urgent HOTFIX for the parser''))
       = [] @ ustr ''urgent'' @ ustr '' hotfix for the parser''
   \<and> is_suitable_programming_issue ascii_tables
        \<lparr>issue_title = ustr ''Urgent HOTFIX for the parser'', issue_body = [], issue_labels = []\<rparr>
       = (False, ustr ''Contains negative keyword: '' @ [39] @ ustr ''hotfix'' @ [39])
   \<and> ustr ''Contains negative keyword: '' @ [39] @ ustr ''hotfix'' @ [39]
       \<noteq> ustr ''Contains negative keyword: '' @ [39] @ ustr ''urgent'' @ [39]"
proof -
  have a: "ustr ''urgent'' \<in> set negative_keywords"
    by (simp add: negative_keywords_def)
  have b: "take 100 (str_lower ascii_tables (ustr ''Urgent HOTFIX for the parser''))
       = [] @ ustr ''urgent'' @ ustr '' hotfix for the parser''"
    by (simp add: ascii_fields ascii_lower_def ustr_def)
  have "find (\<lambda>keyword. str_in keyword
                (take 100 (str_lower ascii_tables (ustr ''Urgent HOTFIX for the parser''))))
          negative_keywords = Some (ustr ''hotfix'')"
    by (simp add: negative_keywords_def ascii_fields ascii_lower_def ustr_def)
  then have c: "is_suitable_programming_issue ascii_tables
        \<lparr>issue_title = ustr ''Urgent HOTFIX for the parser'', issue_body = [], issue_labels = []\<rparr>
       = (False, ustr ''Contains negative keyword: '' @ [39] @ ustr ''hotfix'' @ [39])"
    using negative_keyword_rejects[of ascii_tables
        "\<lparr>issue_title = ustr ''Urgent HOTFIX for the parser'', issue_body = [], issue_labels = []\<rparr>"
        "ustr ''hotfix''"]
    by (simp add: quoted_def)
  have d: "ustr ''Contains negative keyword: '' @ [39] @ ustr ''hotfix'' @ [39]
       \<noteq> ustr ''Contains negative keyword: '' @ [39] @ ustr ''urgent'' @ [39]"
    by (simp add: ustr_def)
  from a b c d show ?thesis by (intro conjI)
qed

section \<open>Whole-word matching in the scorer\<close>

lemma findall_kw_position:
  "findall_from U (keyword_pattern kw) adv p s \<noteq> [] \<Longrightarrow>
     \<exists>pre post. s = pre @ post \<and> kw_at U kw (last_opt p pre) post"
proof (induction s arbitrary: p adv)
  case Nil
  then have "kw_at U kw p []" using findall_kw_miss_Nil by blast
  then have "[] = [] @ [] \<and> kw_at U kw (last_opt p []) []" by (simp add: last_opt_def)
  then show ?case by (rule_tac x = "[]" in exI, rule_tac x = "[]" in exI)
next
  case (Cons x xs)
  show ?case
  proof (cases "kw_at U kw p (x # xs)")
    case True
    then have "x # xs = [] @ (x # xs) \<and> kw_at U kw (last_opt p []) (x # xs)"
      by (simp add: last_opt_def)
    then show ?thesis by (rule_tac x = "[]" in exI, rule_tac x = "x # xs" in exI)
  next
    case False
    with Cons.prems have "findall_from U (keyword_pattern kw) False (Some x) xs \<noteq> []"
      by (simp add: findall_kw_miss_Cons)
    from Cons.IH[OF this] obtain pre post where
      d: "xs = pre @ post" and k: "kw_at U kw (last_opt (Some x) pre) post" by blast
    have "last_opt (Some x) pre = last_opt p (x # pre)" by (simp add: last_opt_def)
    with d k have "x # xs = (x # pre) @ post \<and> kw_at U kw (last_opt p (x # pre)) post"
      by simp
    then show ?thesis by (rule_tac x = "x # pre" in exI, rule_tac x = post in exI)
  qed
qed

lemma kw_at_split:
  assumes "kw_at U kw p s"
  shows "\<exists>m post. s = m @ post \<and> list_all2 (ieq U) kw m \<and> bnd U p (m @ post)
           \<and> bnd U (last_opt p m) post"
proof -
  from assms obtain r where r: "lit_strip U kw p s = Some r" and b1: "bnd U p s"
    and b2: "bnd U (fst r) (snd r)"
    by (auto simp: kw_at_def split: option.splits)
  from lit_strip_drop[OF r] have
    post: "snd r = drop (length kw) s" and len: "length kw \<le> length s"
    and eq: "list_all2 (ieq U) kw (take (length kw) s)"
    and pr: "fst r = (if kw = [] then p else Some (s ! (length kw - 1)))" by auto
  have "fst r = last_opt p (take (length kw) s)"
  proof (cases "kw = []")
    case True
    with pr show ?thesis by (simp add: last_opt_def)
  next
    case False
    then have "take (length kw) s \<noteq> []" using len by (cases s) auto
    moreover have "last (take (length kw) s) = s ! (length kw - 1)"
    proof -
      have n: "length (take (length kw) s) = length kw" using len by simp
      have "last (take (length kw) s) = take (length kw) s ! (length kw - 1)"
        using \<open>take (length kw) s \<noteq> []\<close> n by (simp add: last_conv_nth)
      also have "\<dots> = s ! (length kw - 1)" using False by simp
      finally show ?thesis .
    qed
    ultimately show ?thesis using pr False by (simp add: last_opt_def)
  qed
  with b1 b2 post eq
  have "s = take (length kw) s @ drop (length kw) s
        \<and> list_all2 (ieq U) kw (take (length kw) s)
        \<and> bnd U p (take (length kw) s @ drop (length kw) s)
        \<and> bnd U (last_opt p (take (length kw) s)) (drop (length kw) s)"
    by simp
  then show ?thesis
    by (rule_tac x = "take (length kw) s" in exI, rule_tac x = "drop (length kw) s" in exI)
qed

lemma ex_debugging_score:
  "calculate_score ascii_tables (ustr ''debugging session'') bug_keywords = Inr 0"
  unfolding bug_score_eq
  by (simp add: bug_raw_def score_sum_def bug_keywords_def tier_weight_def kw_eval)

lemma ex_debugging_bug:
  "keyword_matches ascii_tables (ustr ''bug'')
     (str_lower ascii_tables (ustr ''debugging session'')) = 0"
  by (simp add: kw_eval)

section \<open>The scan of a text from a position\<close>

lemma last_opt_take_Suc:
  "i < length s \<Longrightarrow> last_opt p (take (Suc i) s) = Some (s ! i)"
  by (simp add: last_opt_def take_Suc_conv_app_nth)

lemma kw_at_Nil: "kw \<noteq> [] \<Longrightarrow> \<not> kw_at U kw p []"
  by (cases kw) (simp_all add: kw_at_def)

lemma count_at_end: "kw \<noteq> [] \<Longrightarrow> length s \<le> i \<Longrightarrow> count_at U kw p s i = 0"
  by (simp add: count_at_def findall_kw_miss_Nil kw_at_Nil)

lemma count_at_miss:
  assumes "i < length s" "\<not> kw_pos U kw p s i"
  shows "count_at U kw p s i = count_at U kw p s (Suc i)"
proof -
  from assms(1) have d: "drop i s = s ! i # drop (Suc i) s"
    by (simp add: Cons_nth_drop_Suc)
  from assms(2) have "\<not> kw_at U kw (last_opt p (take i s)) (s ! i # drop (Suc i) s)"
    by (simp add: kw_pos_def d)
  then show ?thesis
    by (simp add: count_at_def d findall_kw_miss_Cons last_opt_take_Suc[OF assms(1)])
qed

lemma kw_pos_fits: "kw_pos U kw p s i \<Longrightarrow> kw \<noteq> [] \<Longrightarrow> i + length kw \<le> length s"
proof -
  assume a: "kw_pos U kw p s i" and b: "kw \<noteq> []"
  from kw_at_length[OF a[unfolded kw_pos_def]] have "length kw \<le> length s - i" by simp
  moreover from b have "0 < length kw" by simp
  ultimately show ?thesis by linarith
qed

lemma count_at_hit:
  assumes "kw_pos U kw p s i" "kw \<noteq> []"
  shows "count_at U kw p s i = Suc (count_at U kw p s (i + length kw))"
proof -
  from assms(2) obtain n where n: "length kw = Suc n" by (cases kw) auto
  have fit: "i + Suc n \<le> length s" using kw_pos_fits[OF assms] n by simp
  then have lt: "i + n < length s" by linarith
  have a: "last_opt p (take (i + length kw) s) = Some (s ! (i + n))"
    using last_opt_take_Suc[OF lt, of p] n by simp
  have b: "drop i s ! (length kw - 1) = s ! (i + n)"
    using lt n by simp
  have c: "drop (length kw) (drop i s) = drop (i + length kw) s"
    by (simp add: add.commute)
  from assms(1) have k: "kw_at U kw (last_opt p (take i s)) (drop i s)"
    by (simp add: kw_pos_def)
  show ?thesis
    unfolding count_at_def findall_kw_hit[OF k assms(2)] a b c by simp
qed

lemma count_at_steps:
  assumes kw: "kw \<noteq> []"
  shows "i \<le> length s \<Longrightarrow>
     (i < length s \<longrightarrow> count_at U kw p s (Suc i) \<le> count_at U kw p s i)
     \<and> (\<forall>m \<le> length kw. i + m \<le> length s \<longrightarrow>
           count_at U kw p s i \<le> Suc (count_at U kw p s (i + m)))"
proof (induction "length s - i" arbitrary: i rule: less_induct)
  case less
  let ?c = "count_at U kw p s" and ?n = "length kw"
  have ihA: "?c (Suc j) \<le> ?c j" if "i < j" "j < length s" for j
    using less.hyps[of j] that by auto
  have ihB: "?c j \<le> Suc (?c (j + m))" if "i < j" "m \<le> ?n" "j + m \<le> length s" for j m
    using less.hyps[of j] that by auto
  have mono: "?c b \<le> ?c a" if "a \<le> b" "i < a" "b \<le> length s" for a b
    using that
  proof (induction b rule: dec_induct)
    case base
    show ?case by simp
  next
    case (step b)
    from step have "?c (Suc b) \<le> ?c b" by (intro ihA) auto
    moreover from step have "?c b \<le> ?c a" by simp
    ultimately show ?case by simp
  qed
  have A: "?c (Suc i) \<le> ?c i" if lt: "i < length s"
  proof (cases "kw_pos U kw p s i")
    case True
    from kw obtain n where n: "length kw = Suc n" by (cases kw) auto
    have fit: "i + Suc n \<le> length s" using kw_pos_fits[OF True kw] n by simp
    from ihB[of "Suc i" n] fit n have "?c (Suc i) \<le> Suc (?c (Suc i + n))" by simp
    with count_at_hit[OF True kw] n show ?thesis by simp
  next
    case False
    with count_at_miss[OF lt False] show ?thesis by simp
  qed
  have B: "?c i \<le> Suc (?c (i + m))" if m: "m \<le> ?n" "i + m \<le> length s" for m
  proof (cases "m = 0")
    case True
    then show ?thesis by simp
  next
    case pos: False
    with m have lt: "i < length s" by linarith
    show ?thesis
    proof (cases "kw_pos U kw p s i")
      case True
      have fit: "i + ?n \<le> length s" by (rule kw_pos_fits[OF True kw])
      from pos m fit have "?c (i + ?n) \<le> ?c (i + m)" by (intro mono) auto
      with count_at_hit[OF True kw] show ?thesis by simp
    next
      case False
      from pos obtain m' where m': "m = Suc m'" by (cases m) auto
      from ihB[of "Suc i" m'] m m' have "?c (Suc i) \<le> Suc (?c (Suc i + m'))" by simp
      with count_at_miss[OF lt False] m' show ?thesis by simp
    qed
  qed
  from A B show ?case by blast
qed

lemma count_at_Suc_le:
  "kw \<noteq> [] \<Longrightarrow> i < length s \<Longrightarrow> count_at U kw p s (Suc i) \<le> count_at U kw p s i"
  using count_at_steps[of kw i s U p] by simp

section \<open>Appending one more occurrence of a keyword\<close>

lemma lit_strip_append:
  "lit_strip U kw p u = Some r \<Longrightarrow> lit_strip U kw p (u @ w) = Some (fst r, snd r @ w)"
proof (induction kw arbitrary: p u)
  case Nil
  then show ?case by auto
next
  case (Cons c cs)
  then show ?case by (cases u) (auto split: if_splits)
qed

lemma bnd_append_sep: "\<not> is_word U sep \<Longrightarrow> bnd U q (v @ sep # w) = bnd U q v"
  by (cases v) (simp_all add: bnd_def)

lemma kw_at_append:
  assumes "kw_at U kw p u" "\<not> is_word U sep"
  shows "kw_at U kw p (u @ sep # w)"
proof -
  from assms(1) obtain r where r: "lit_strip U kw p u = Some r" and b1: "bnd U p u"
    and b2: "bnd U (fst r) (snd r)"
    by (auto simp: kw_at_def split: option.splits)
  from lit_strip_append[OF r, of "sep # w"] b1 b2 assms(2) show ?thesis
    by (simp add: kw_at_def bnd_append_sep)
qed

lemma kw_pos_append:
  "i \<le> length s \<Longrightarrow> kw_pos U kw p s i \<Longrightarrow> \<not> is_word U sep
     \<Longrightarrow> kw_pos U kw p (s @ sep # w) i"
  by (simp add: kw_pos_def kw_at_append)

lemma count_at_append:
  assumes kw: "kw \<noteq> []" and sep: "\<not> is_word U sep"
  shows "i \<le> length s \<Longrightarrow> count_at U kw p s i \<le> count_at U kw p (s @ sep # w) i"
proof (induction "length s - i" arbitrary: i rule: less_induct)
  case less
  show ?case
  proof (cases "i = length s")
    case True
    then show ?thesis by (simp add: count_at_end[OF kw])
  next
    case False
    with less.prems have lt: "i < length s" by simp
    then have lt': "i < length (s @ sep # w)" by simp
    show ?thesis
    proof (cases "kw_pos U kw p s i")
      case True
      have fit: "i + length kw \<le> length s" by (rule kw_pos_fits[OF True kw])
      from kw have "0 < length kw" by simp
      with fit lt have "length s - (i + length kw) < length s - i" by linarith
      from less.hyps[OF this fit]
      have "count_at U kw p s (i + length kw) \<le> count_at U kw p (s @ sep # w) (i + length kw)" .
      with count_at_hit[OF True kw]
        count_at_hit[OF kw_pos_append[OF less.prems True sep, of w] kw]
      show ?thesis by simp
    next
      case False
      from lt have "length s - Suc i < length s - i" "Suc i \<le> length s" by linarith+
      from less.hyps[OF this]
      have "count_at U kw p s (Suc i) \<le> count_at U kw p (s @ sep # w) (Suc i)" .
      with count_at_miss[OF lt False] count_at_Suc_le[OF kw lt', of U p]
      show ?thesis by simp
    qed
  qed
qed

lemma lit_strip_self:
  "list_all2 (ieq U) a b \<Longrightarrow> lit_strip U a p b = Some (last_opt p b, [])"
proof (induction a arbitrary: p b)
  case Nil
  then show ?case by (simp add: last_opt_def)
next
  case (Cons c cs)
  then obtain x xs where b: "b = x # xs" and c: "ieq U c x" and r: "list_all2 (ieq U) cs xs"
    by (auto simp: list_all2_Cons1)
  from Cons.IH[OF r, of "Some x"] c show ?case
    by (simp add: b last_opt_def)
qed

lemma kw_at_self:
  assumes "k \<noteq> []" "is_word U (hd k)" "is_word U (last k)" "list_all2 (ieq U) k k"
    "\<not> is_word U sep"
  shows "kw_at U k (Some sep) k"
  using assms lit_strip_self[OF assms(4), of "Some sep"]
  by (cases k) (simp_all add: kw_at_def bnd_def last_opt_def)

lemma count_at_append_gain:
  assumes kw: "k \<noteq> []" and w: "is_word U (hd k)" "is_word U (last k)"
    and e: "list_all2 (ieq U) k k" and sep: "\<not> is_word U sep"
  shows "i \<le> length s \<Longrightarrow> Suc (count_at U k p s i) \<le> count_at U k p (s @ sep # k) i"
proof (induction "length s - i" arbitrary: i rule: less_induct)
  case less
  show ?case
  proof (cases "i = length s")
    case True
    have "kw_pos U k p (s @ sep # k) (Suc (length s))"
      using kw_at_self[OF kw w e sep] by (simp add: kw_pos_def last_opt_def)
    from count_at_hit[OF this kw]
    have "1 \<le> count_at U k p (s @ sep # k) (Suc (length s))" by simp
    moreover have "count_at U k p (s @ sep # k) (Suc (length s))
                     \<le> count_at U k p (s @ sep # k) (length s)"
      by (rule count_at_Suc_le[OF kw]) simp
    ultimately show ?thesis using True by (simp add: count_at_end[OF kw])
  next
    case False
    with less.prems have lt: "i < length s" by simp
    then have lt': "i < length (s @ sep # k)" by simp
    show ?thesis
    proof (cases "kw_pos U k p s i")
      case True
      have fit: "i + length k \<le> length s" by (rule kw_pos_fits[OF True kw])
      from kw have "0 < length k" by simp
      with fit lt have "length s - (i + length k) < length s - i" by linarith
      from less.hyps[OF this fit]
      have "Suc (count_at U k p s (i + length k)) \<le> count_at U k p (s @ sep # k) (i + length k)" .
      with count_at_hit[OF True kw]
        count_at_hit[OF kw_pos_append[OF less.prems True sep, of k] kw]
      show ?thesis by simp
    next
      case False
      from lt have "length s - Suc i < length s - i" "Suc i \<le> length s" by linarith+
      from less.hyps[OF this]
      have "Suc (count_at U k p s (Suc i)) \<le> count_at U k p (s @ sep # k) (Suc i)" .
      with count_at_miss[OF lt False] count_at_Suc_le[OF kw lt', of U p]
      show ?thesis by simp
    qed
  qed
qed

lemma keyword_matches_count_at: "keyword_matches U kw s = count_at U kw None s 0"
  by (simp add: keyword_matches_def re_findall_def count_at_def last_opt_def)

lemma keyword_matches_append:
  "kw \<noteq> [] \<Longrightarrow> \<not> is_word U sep \<Longrightarrow>
     keyword_matches U kw s \<le> keyword_matches U kw (s @ sep # w)"
  by (simp add: keyword_matches_count_at count_at_append)

lemma keyword_matches_append_gain:
  "k \<noteq> [] \<Longrightarrow> is_word U (hd k) \<Longrightarrow> is_word U (last k) \<Longrightarrow> list_all2 (ieq U) k k
     \<Longrightarrow> \<not> is_word U sep
     \<Longrightarrow> Suc (keyword_matches U k s) \<le> keyword_matches U k (s @ sep # k)"
  by (simp add: keyword_matches_count_at count_at_append_gain)

lemma sum_list_gain:
  fixes f g :: "'a \<Rightarrow> real"
  assumes "x0 \<in> set xs" "\<And>x. x \<in> set xs \<Longrightarrow> f x \<le> g x" "f x0 + d \<le> g x0"
  shows "sum_list (map f xs) + d \<le> sum_list (map g xs)"
  using assms
proof (induction xs)
  case Nil
  then show ?case by simp
next
  case (Cons x xs)
  have le: "sum_list (map f xs) \<le> sum_list (map g xs)"
    by (rule sum_list_mono) (simp add: Cons.prems(2))
  show ?case
  proof (cases "x = x0")
    case True
    with Cons.prems(3) le show ?thesis by simp
  next
    case False
    with Cons.prems have "x0 \<in> set xs" by simp
    then have "sum_list (map f xs) + d \<le> sum_list (map g xs)"
      by (rule Cons.IH) (simp_all add: Cons.prems)
    moreover have "f x \<le> g x" by (rule Cons.prems(2)) simp
    ultimately show ?thesis by simp
  qed
qed

lemma score_sum_append_gain:
  assumes ne: "nonempty_keywords kd" and valid: "valid_levels kd"
    and mem: "(ustr ''high'', kws) \<in> set kd" "k \<in> set kws"
    and w: "is_word U (hd k)" "is_word U (last k)" and e: "list_all2 (ieq U) k k"
    and sep: "\<not> is_word U sep"
  shows "score_sum U s kd + 3 \<le> score_sum U (s @ sep # k) kd"
proof -
  let ?h = "\<lambda>txt e. \<Sum>kw\<leftarrow>snd e. real (keyword_matches U kw txt) * tier_weight (fst e)"
  have k: "k \<noteq> []" using ne mem by (auto simp: nonempty_keywords_def list_all_iff)
  have tw: "0 \<le> tier_weight l" for l by (simp add: tier_weight_def)
  have tm: "real (keyword_matches U kw s) * tier_weight l
                \<le> real (keyword_matches U kw (s @ sep # k)) * tier_weight l"
    if "kw \<noteq> []" for kw l
    using keyword_matches_append[OF that sep, of s k] tw[of l]
    by (intro mult_right_mono) simp_all
  have all: "?h s e' \<le> ?h (s @ sep # k) e'" if "e' \<in> set kd" for e'
  proof (rule sum_list_mono)
    fix kw assume "kw \<in> set (snd e')"
    with that ne have "kw \<noteq> []" by (auto simp: nonempty_keywords_def list_all_iff)
    then show "real (keyword_matches U kw s) * tier_weight (fst e')
                \<le> real (keyword_matches U kw (s @ sep # k)) * tier_weight (fst e')"
      by (rule tm)
  qed
  have gain: "?h s (ustr ''high'', kws) + 3 \<le> ?h (s @ sep # k) (ustr ''high'', kws)"
  proof -
    have hw: "tier_weight (ustr ''high'') = 3" by (simp add: tier_weight_def)
    have "(\<Sum>kw\<leftarrow>kws. real (keyword_matches U kw s) * tier_weight (ustr ''high'')) + 3
            \<le> (\<Sum>kw\<leftarrow>kws. real (keyword_matches U kw (s @ sep # k)) * tier_weight (ustr ''high''))"
    proof (rule sum_list_gain[OF mem(2)])
      fix kw assume "kw \<in> set kws"
      with mem(1) ne have "kw \<noteq> []"
        by (auto simp: nonempty_keywords_def list_all_iff)
      then show "real (keyword_matches U kw s) * tier_weight (ustr ''high'')
                \<le> real (keyword_matches U kw (s @ sep # k)) * tier_weight (ustr ''high'')"
        by (rule tm)
    next
      from keyword_matches_append_gain[OF k w e sep, of s]
      have "real (keyword_matches U k s) + 1 \<le> real (keyword_matches U k (s @ sep # k))"
        by linarith
      then show "real (keyword_matches U k s) * tier_weight (ustr ''high'') + 3
                \<le> real (keyword_matches U k (s @ sep # k)) * tier_weight (ustr ''high'')"
        by (simp add: hw)
    qed
    then show ?thesis by simp
  qed
  show ?thesis
    unfolding score_sum_def
    by (rule sum_list_gain[OF mem(1)]) (use all gain in auto)
qed

section \<open>The positions that the scan counts\<close>

lemma last_opt_append: "last_opt p (a @ b) = last_opt (last_opt p a) b"
  by (simp add: last_opt_def)

lemma kw_at_iff:
  "kw_at U kw p s \<longleftrightarrow>
     length kw \<le> length s \<and> list_all2 (ieq U) kw (take (length kw) s) \<and> bnd U p s
     \<and> bnd U (last_opt p (take (length kw) s)) (drop (length kw) s)"
proof
  assume "kw_at U kw p s"
  from kw_at_split[OF this] obtain m post where
    s: "s = m @ post" and e: "list_all2 (ieq U) kw m" and b1: "bnd U p (m @ post)"
    and b2: "bnd U (last_opt p m) post" by blast
  from e have "length kw = length m" by (rule list_all2_lengthD)
  with s e b1 b2 show "length kw \<le> length s \<and> list_all2 (ieq U) kw (take (length kw) s)
     \<and> bnd U p s \<and> bnd U (last_opt p (take (length kw) s)) (drop (length kw) s)"
    by simp
next
  assume a: "length kw \<le> length s \<and> list_all2 (ieq U) kw (take (length kw) s) \<and> bnd U p s
     \<and> bnd U (last_opt p (take (length kw) s)) (drop (length kw) s)"
  then have "list_all2 (ieq U) kw (take (length kw) s)" by simp
  from lit_strip_append[OF lit_strip_self[OF this], of p "drop (length kw) s"]
  have "lit_strip U kw p s = Some (last_opt p (take (length kw) s), drop (length kw) s)"
    by simp
  with a show "kw_at U kw p s" by (simp add: kw_at_def)
qed

lemma kw_pos_whole_word:
  "whole_word_at U kw s i \<longleftrightarrow> i + length kw \<le> length s \<and> kw_pos U kw None s i"
proof (cases "i + length kw \<le> length s")
  case False
  then show ?thesis by (simp add: whole_word_at_def)
next
  case True
  then have t: "take (i + length kw) s = take i s @ take (length kw) (drop i s)"
    by (simp add: take_add)
  have d: "drop (length kw) (drop i s) = drop (i + length kw) s"
    by (simp add: add.commute)
  from True have l: "length kw \<le> length (drop i s)" by simp
  show ?thesis
    unfolding whole_word_at_def kw_pos_def kw_at_iff t last_opt_append d
    using True l by blast
qed

lemma whole_word_kw_pos:
  "kw \<noteq> [] \<Longrightarrow> kw_pos U kw None s i \<longleftrightarrow> whole_word_at U kw s i"
  using kw_pos_fits[of U kw None s i] by (auto simp: kw_pos_whole_word)

lemma count_at_positions:
  assumes kw: "kw \<noteq> []"
  shows "i \<le> length s \<Longrightarrow>
     \<exists>ps. length ps = count_at U kw p s i
        \<and> (\<forall>j\<in>set ps. i \<le> j \<and> kw_pos U kw p s j)
        \<and> sorted_wrt (\<lambda>a b. a + length kw \<le> b) ps
        \<and> (\<forall>q\<ge>i. kw_pos U kw p s q \<longrightarrow> (\<exists>j\<in>set ps. j \<le> q \<and> q < j + length kw))"
proof (induction "length s - i" arbitrary: i rule: less_induct)
  case less
  let ?n = "length kw"
  from kw have n: "0 < ?n" by simp
  show ?case
  proof (cases "i = length s")
    case True
    have "\<not> kw_pos U kw p s q" if "i \<le> q" for q
      using kw_pos_fits[of U kw p s q] kw n that True by auto
    then have "length [] = count_at U kw p s i
        \<and> (\<forall>j\<in>set []. i \<le> j \<and> kw_pos U kw p s j)
        \<and> sorted_wrt (\<lambda>a b. a + ?n \<le> b) []
        \<and> (\<forall>q\<ge>i. kw_pos U kw p s q \<longrightarrow> (\<exists>j\<in>set []. j \<le> q \<and> q < j + ?n))"
      using True by (simp add: count_at_end[OF kw])
    then show ?thesis by (rule exI)
  next
    case False
    with less.prems have lt: "i < length s" by simp
    show ?thesis
    proof (cases "kw_pos U kw p s i")
      case True
      have fit: "i + ?n \<le> length s" by (rule kw_pos_fits[OF True kw])
      from n fit lt have "length s - (i + ?n) < length s - i" by linarith
      from less.hyps[OF this fit] obtain ps where
        l: "length ps = count_at U kw p s (i + ?n)"
        and m: "\<forall>j\<in>set ps. i + ?n \<le> j \<and> kw_pos U kw p s j"
        and s: "sorted_wrt (\<lambda>a b. a + ?n \<le> b) ps"
        and c: "\<forall>q\<ge>i + ?n. kw_pos U kw p s q \<longrightarrow> (\<exists>j\<in>set ps. j \<le> q \<and> q < j + ?n)"
        by blast
      have l': "length (i # ps) = count_at U kw p s i"
        using l count_at_hit[OF True kw] by simp
      have m': "\<forall>j\<in>set (i # ps). i \<le> j \<and> kw_pos U kw p s j"
        using m True by auto
      have s': "sorted_wrt (\<lambda>a b. a + ?n \<le> b) (i # ps)"
        using s m by simp
      have c': "\<forall>q\<ge>i. kw_pos U kw p s q \<longrightarrow> (\<exists>j\<in>set (i # ps). j \<le> q \<and> q < j + ?n)"
      proof (intro allI impI)
        fix q assume q: "i \<le> q" and k: "kw_pos U kw p s q"
        show "\<exists>j\<in>set (i # ps). j \<le> q \<and> q < j + ?n"
        proof (cases "q < i + ?n")
          case True
          with q show ?thesis by simp
        next
          case False
          then have "i + ?n \<le> q" by simp
          with c k obtain j where "j \<in> set ps" "j \<le> q \<and> q < j + ?n" by blast
          then show ?thesis by auto
        qed
      qed
      from l' m' s' c' show ?thesis by blast
    next
      case False
      from lt have "length s - Suc i < length s - i" "Suc i \<le> length s" by linarith+
      from less.hyps[OF this] obtain ps where
        l: "length ps = count_at U kw p s (Suc i)"
        and m: "\<forall>j\<in>set ps. Suc i \<le> j \<and> kw_pos U kw p s j"
        and s: "sorted_wrt (\<lambda>a b. a + ?n \<le> b) ps"
        and c: "\<forall>q\<ge>Suc i. kw_pos U kw p s q \<longrightarrow> (\<exists>j\<in>set ps. j \<le> q \<and> q < j + ?n)"
        by blast
      have l': "length ps = count_at U kw p s i"
        using l count_at_miss[OF lt False] by simp
      have m': "\<forall>j\<in>set ps. i \<le> j \<and> kw_pos U kw p s j"
        using m by auto
      have c': "\<forall>q\<ge>i. kw_pos U kw p s q \<longrightarrow> (\<exists>j\<in>set ps. j \<le> q \<and> q < j + ?n)"
      proof (intro allI impI)
        fix q assume q: "i \<le> q" and k: "kw_pos U kw p s q"
        from k False have "q \<noteq> i" by auto
        with q have "Suc i \<le> q" by simp
        with c k show "\<exists>j\<in>set ps. j \<le> q \<and> q < j + ?n" by blast
      qed
      from l' m' s c' show ?thesis by blast
    qed
  qed
qed

lemma keyword_matches_positions:
  assumes "kw \<noteq> []"
  shows "\<exists>ps. keyword_matches U kw txt = length ps
        \<and> (\<forall>i\<in>set ps. whole_word_at U kw txt i)
        \<and> sorted_wrt (\<lambda>i j. i + length kw \<le> j) ps
        \<and> (\<forall>q. whole_word_at U kw txt q \<longrightarrow> (\<exists>i\<in>set ps. i \<le> q \<and> q < i + length kw))"
proof -
  from count_at_positions[OF assms, of 0 "txt" U None] obtain ps where
    l: "length ps = count_at U kw None txt 0"
    and m: "\<forall>j\<in>set ps. 0 \<le> j \<and> kw_pos U kw None txt j"
    and s: "sorted_wrt (\<lambda>a b. a + length kw \<le> b) ps"
    and c: "\<forall>q\<ge>0. kw_pos U kw None txt q \<longrightarrow> (\<exists>j\<in>set ps. j \<le> q \<and> q < j + length kw)"
    by auto
  from l have l': "keyword_matches U kw txt = length ps"
    by (simp add: keyword_matches_count_at)
  from m have m': "\<forall>i\<in>set ps. whole_word_at U kw txt i"
    by (simp add: whole_word_kw_pos[OF assms])
  from c have c': "\<forall>q. whole_word_at U kw txt q \<longrightarrow> (\<exists>i\<in>set ps. i \<le> q \<and> q < i + length kw)"
    by (simp add: whole_word_kw_pos[OF assms])
  from l' m' s c' show ?thesis by blast
qed

lemma whole_word_neighbours:
  assumes "whole_word_at U kw txt i" and "kw \<noteq> []"
  shows "(is_word U (txt ! i) \<longrightarrow> i = 0 \<or> \<not> is_word U (txt ! (i - 1)))
       \<and> (is_word U (txt ! (i + length kw - 1)) \<longrightarrow>
             i + length kw = length txt \<or> \<not> is_word U (txt ! (i + length kw)))"
proof -
  from assms(2) obtain n where n: "length kw = Suc n" by (cases kw) auto
  from assms(1) have fit: "i + Suc n \<le> length txt"
    and b1: "bnd U (last_opt None (take i txt)) (drop i txt)"
    and b2: "bnd U (last_opt None (take (i + Suc n) txt)) (drop (i + Suc n) txt)"
    by (simp_all add: whole_word_at_def n)
  from fit have lt: "i < length txt" and lt2: "i + n < length txt" by linarith+
  have d1: "first_opt (drop i txt) = Some (txt ! i)"
    using lt by (simp add: Cons_nth_drop_Suc[symmetric])
  have p1: "last_opt None (take i txt) = (if i = 0 then None else Some (txt ! (i - 1)))"
  proof (cases i)
    case 0
    then show ?thesis by (simp add: last_opt_def)
  next
    case (Suc j)
    with lt have "j < length txt" by simp
    from last_opt_take_Suc[OF this, of None] Suc show ?thesis by simp
  qed
  have p2: "last_opt None (take (i + Suc n) txt) = Some (txt ! (i + n))"
    using last_opt_take_Suc[OF lt2, of None] by simp
  have d2: "first_opt (drop (i + Suc n) txt)
              = (if i + Suc n = length txt then None else Some (txt ! (i + Suc n)))"
  proof (cases "i + Suc n = length txt")
    case True
    then show ?thesis by simp
  next
    case False
    with fit have "i + Suc n < length txt" by simp
    then show ?thesis using False by (simp add: Cons_nth_drop_Suc[symmetric])
  qed
  from b1 have A: "is_word U (txt ! i) \<longrightarrow> i = 0 \<or> \<not> is_word U (txt ! (i - 1))"
    unfolding bnd_def d1 p1 by (auto split: if_splits)
  from b2 have B: "is_word U (txt ! (i + n)) \<longrightarrow>
             i + Suc n = length txt \<or> \<not> is_word U (txt ! (i + Suc n))"
    unfolding bnd_def d2 p2 by (auto split: if_splits)
  from A B show ?thesis by (simp add: n)
qed

lemma filter_clauses:
  fixes U i
  defines "title \<equiv> str_lower U (issue_title i)"
    and "body \<equiv> str_lower U (issue_body i)"
    and "labels \<equiv> map (str_lower U) (issue_labels i)"
  shows "find (\<lambda>k. \<exists>pre post. take 100 title = pre @ k @ post) negative_keywords = Some k \<Longrightarrow>
           is_suitable_programming_issue U i
             = (False, ustr ''Contains negative keyword: '' @ [39] @ k @ [39])"
    and "find (\<lambda>k. \<exists>pre post. take 100 title = pre @ k @ post) negative_keywords = None \<Longrightarrow>
         find (\<lambda>k. (\<exists>pre post. str_lower U title = pre @ k @ post)
                     \<or> (\<exists>pre post. str_lower U (take 500 body) = pre @ k @ post))
           cross_platform_keywords = Some k \<Longrightarrow>
           is_suitable_programming_issue U i
             = (False, ustr ''Cross-platform issue not suitable for fixed environment: ''
                         @ [39] @ k @ [39])"
    and "find (\<lambda>k. \<exists>pre post. take 100 title = pre @ k @ post) negative_keywords = None \<Longrightarrow>
         find (\<lambda>k. (\<exists>pre post. str_lower U title = pre @ k @ post)
                     \<or> (\<exists>pre post. str_lower U (take 500 body) = pre @ k @ post))
           cross_platform_keywords = None \<Longrightarrow>
         find (\<lambda>l. l \<in> set labels) negative_labels = None \<Longrightarrow>
         k \<in> set positive_keywords \<Longrightarrow>
         (\<exists>pre post. title = pre @ k @ post) \<or> (\<exists>pre post. take 500 body = pre @ k @ post) \<Longrightarrow>
           fst (is_suitable_programming_issue U i)"
  unfolding title_def body_def labels_def str_in_iff[symmetric]
  by (auto simp: is_suitable_programming_issue_def Let_def quoted_def list_ex_iff)

text \<open>
  Claim C1, as amended. In the classifier, the lexicon scorer and the exclusion counter
  both count a keyword with \<open>keyword_matches\<close>. For a non-empty keyword that number is
  the length of a list of positions of the text such that the keyword occurs at each of
  them as a whole word (its characters up to case, a word boundary before and after),
  the occurrences do not overlap, and every whole-word occurrence of the keyword in the
  text starts inside one of them: the count is the number of non-overlapping whole-word
  occurrences taken from left to right, and nothing else is counted. Where such an
  occurrence begins or ends with a word character, the character next to it is not a word
  character, so the occurrence is not part of a longer word. The score of
  ``debugging session'' against the bug lexicon is 0 and the keyword ``bug'' is not
  counted in it.

  The suitability filter tests its keywords with \<^verbatim>\<open>in\<close>: a negative keyword that
  stands anywhere in the first 100 characters of the lower-cased title rejects the issue,
  otherwise a cross-platform keyword that stands anywhere in the title or in the first 500
  characters of the body rejects it, and otherwise, when no negative label is present, a
  positive keyword that stands anywhere in the title or in the first 500 characters of
  the body makes the issue suitable; what stands before and after the keyword plays no
  role.
\<close>

theorem scorer_counts_whole_words:
  "(0 < keyword_matches U kw txt \<longrightarrow>
      (\<exists>pre m post. txt = pre @ m @ post \<and> list_all2 (ieq U) kw m
          \<and> bnd U (last_opt None pre) (m @ post)
          \<and> bnd U (last_opt (last_opt None pre) m) post))
   \<and> (kw \<noteq> [] \<longrightarrow>
        (\<exists>ps. keyword_matches U kw txt = length ps
           \<and> (\<forall>i\<in>set ps. whole_word_at U kw txt i)
           \<and> sorted_wrt (\<lambda>i j. i + length kw \<le> j) ps
           \<and> (\<forall>q. whole_word_at U kw txt q \<longrightarrow> (\<exists>i\<in>set ps. i \<le> q \<and> q < i + length kw))))
   \<and> (kw \<noteq> [] \<and> whole_word_at U kw txt i \<longrightarrow>
        (is_word U (txt ! i) \<longrightarrow> i = 0 \<or> \<not> is_word U (txt ! (i - 1)))
        \<and> (is_word U (txt ! (i + length kw - 1)) \<longrightarrow>
              i + length kw = length txt \<or> \<not> is_word U (txt ! (i + length kw))))
   \<and> (valid_levels keyword_dict \<longrightarrow>
        calculate_score U text keyword_dict
          = Inr (if text = [] then 0
                 else (\<Sum>e\<leftarrow>keyword_dict. \<Sum>keyword\<leftarrow>snd e.
                         real (keyword_matches U keyword (str_lower U text)) * tier_weight (fst e))))
   \<and> check_exclude_patterns U text
        = Inr (if text = [] then 0
               else 2 * (\<Sum>keyword\<leftarrow>snd (hd exclude_keywords).
                           real (keyword_matches U keyword (str_lower U text))))
   \<and> calculate_score ascii_tables (ustr ''debugging session'') bug_keywords = Inr 0
   \<and> keyword_matches ascii_tables (ustr ''bug'')
        (str_lower ascii_tables (ustr ''debugging session'')) = 0
   \<and> (find (\<lambda>k. \<exists>pre post. take 100 (str_lower U (issue_title i0)) = pre @ k @ post)
          negative_keywords = Some k \<longrightarrow>
        is_suitable_programming_issue U i0
          = (False, ustr ''Contains negative keyword: '' @ [39] @ k @ [39]))
   \<and> (find (\<lambda>k. \<exists>pre post. take 100 (str_lower U (issue_title i0)) = pre @ k @ post)
          negative_keywords = None
       \<and> find (\<lambda>k. (\<exists>pre post. str_lower U (str_lower U (issue_title i0)) = pre @ k @ post)
                   \<or> (\<exists>pre post. str_lower U (take 500 (str_lower U (issue_body i0)))
                                    = pre @ k @ post))
          cross_platform_keywords = Some k \<longrightarrow>
        is_suitable_programming_issue U i0
          = (False, ustr ''Cross-platform issue not suitable for fixed environment: ''
                      @ [39] @ k @ [39]))
   \<and> (find (\<lambda>k. \<exists>pre post. take 100 (str_lower U (issue_title i0)) = pre @ k @ post)
          negative_keywords = None
       \<and> find (\<lambda>k. (\<exists>pre post. str_lower U (str_lower U (issue_title i0)) = pre @ k @ post)
                   \<or> (\<exists>pre post. str_lower U (take 500 (str_lower U (issue_body i0)))
                                    = pre @ k @ post))
          cross_platform_keywords = None
       \<and> find (\<lambda>l. l \<in> set (map (str_lower U) (issue_labels i0))) negative_labels = None
       \<and> k \<in> set positive_keywords
       \<and> ((\<exists>pre post. str_lower U (issue_title i0) = pre @ k @ post)
            \<or> (\<exists>pre post. take 500 (str_lower U (issue_body i0)) = pre @ k @ post)) \<longrightarrow>
        fst (is_suitable_programming_issue U i0))"
proof -
  have a: "\<exists>pre m post. txt = pre @ m @ post \<and> list_all2 (ieq U) kw m
          \<and> bnd U (last_opt None pre) (m @ post)
          \<and> bnd U (last_opt (last_opt None pre) m) post"
    if "0 < keyword_matches U kw txt"
  proof -
    from that have "findall_from U (keyword_pattern kw) False None txt \<noteq> []"
      by (auto simp: keyword_matches_def re_findall_def)
    from findall_kw_position[OF this] obtain pre rest where
      d: "txt = pre @ rest" and k: "kw_at U kw (last_opt None pre) rest" by blast
    from kw_at_split[OF k] obtain m post where
      r: "rest = m @ post" and e: "list_all2 (ieq U) kw m"
      and b1: "bnd U (last_opt None pre) (m @ post)"
      and b2: "bnd U (last_opt (last_opt None pre) m) post" by blast
    from d r e b1 b2
    have "txt = pre @ m @ post \<and> list_all2 (ieq U) kw m
          \<and> bnd U (last_opt None pre) (m @ post)
          \<and> bnd U (last_opt (last_opt None pre) m) post"
      by simp
    then show ?thesis
      by (rule_tac x = pre in exI, rule_tac x = m in exI, rule_tac x = post in exI)
  qed
  have b: "kw \<noteq> [] \<longrightarrow>
        (\<exists>ps. keyword_matches U kw txt = length ps
           \<and> (\<forall>i\<in>set ps. whole_word_at U kw txt i)
           \<and> sorted_wrt (\<lambda>i j. i + length kw \<le> j) ps
           \<and> (\<forall>q. whole_word_at U kw txt q \<longrightarrow> (\<exists>i\<in>set ps. i \<le> q \<and> q < i + length kw)))"
    using keyword_matches_positions[of kw U "txt"] by blast
  have c: "kw \<noteq> [] \<and> whole_word_at U kw txt i \<longrightarrow>
        (is_word U (txt ! i) \<longrightarrow> i = 0 \<or> \<not> is_word U (txt ! (i - 1)))
        \<and> (is_word U (txt ! (i + length kw - 1)) \<longrightarrow>
              i + length kw = length txt \<or> \<not> is_word U (txt ! (i + length kw)))"
    using whole_word_neighbours[of U kw "txt" i] by blast
  have d: "valid_levels keyword_dict \<longrightarrow>
        calculate_score U text keyword_dict
          = Inr (if text = [] then 0
                 else (\<Sum>e\<leftarrow>keyword_dict. \<Sum>keyword\<leftarrow>snd e.
                         real (keyword_matches U keyword (str_lower U text)) * tier_weight (fst e)))"
    by (simp add: calculate_score_eq score_sum_def)
  have e: "check_exclude_patterns U text
        = Inr (if text = [] then 0
               else 2 * (\<Sum>keyword\<leftarrow>snd (hd exclude_keywords).
                           real (keyword_matches U keyword (str_lower U text))))"
    by (simp add: exclude_score_eq exclude_raw_def)
  note f = filter_clauses[of U i0 k]
  from a b c d e ex_debugging_score ex_debugging_bug f show ?thesis
    by (intro conjI impI) (erule conjE | assumption | blast)+
qed

theorem scorer_counts_whole_words_witness:
  "ustr ''bug'' \<noteq> []
   \<and> keyword_matches ascii_tables (ustr ''bug'') (ustr ''a bug, debug bug'') = 2
   \<and> (\<exists>ps. length ps = 2
         \<and> list_all (whole_word_at ascii_tables (ustr ''bug'') (ustr ''a bug, debug bug'')) ps
         \<and> sorted_wrt (\<lambda>i j. i + 3 \<le> j) ps)
   \<and> whole_word_at ascii_tables (ustr ''bug'') (ustr ''a bug, debug bug'') 2
   \<and> \<not> is_word ascii_tables (ustr ''a bug, debug bug'' ! 1)
   \<and> \<not> is_word ascii_tables (ustr ''a bug, debug bug'' ! 5)
   \<and> valid_levels bug_keywords
   \<and> calculate_score ascii_tables (ustr ''a bug, debug bug'') bug_keywords = Inr 8
   \<and> is_suitable_programming_issue ascii_tables
        \<lparr>issue_title = ustr ''Add typography support'', issue_body = [], issue_labels = []\<rparr>
       = (False, ustr ''Contains negative keyword: '' @ [39] @ ustr ''typo'' @ [39])
   \<and> is_suitable_programming_issue ascii_tables
        \<lparr>issue_title = ustr ''Add webhook retries'', issue_body = [], issue_labels = []\<rparr>
       = (False, ustr ''Cross-platform issue not suitable for fixed environment: ''
                   @ [39] @ ustr ''web'' @ [39])
   \<and> fst (is_suitable_programming_issue ascii_tables
        \<lparr>issue_title = ustr ''Reclassify the nodes'', issue_body = [], issue_labels = []\<rparr>)"
proof -
  let ?t = "ustr ''a bug, debug bug''"
  let ?i1 = "\<lparr>issue_title = ustr ''Add typography support'', issue_body = [], issue_labels = []\<rparr>"
  let ?i2 = "\<lparr>issue_title = ustr ''Add webhook retries'', issue_body = [], issue_labels = []\<rparr>"
  let ?i3 = "\<lparr>issue_title = ustr ''Reclassify the nodes'', issue_body = [], issue_labels = []\<rparr>"
  have h1: "ustr ''bug'' \<noteq> []" by (simp add: ustr_def)
  have h2: "keyword_matches ascii_tables (ustr ''bug'') ?t = 2" by (simp add: kw_eval)
  have h3: "whole_word_at ascii_tables (ustr ''bug'') ?t 2"
    by (simp add: whole_word_at_def bnd_def last_opt_def ascii_fields ascii_word_def
        ascii_lower_def ustr_def)
  have h4: "valid_levels bug_keywords" by (rule valid_bug)
  have len: "length (ustr ''bug'') = 3" by (simp add: ustr_def)
  from scorer_counts_whole_words[where U = ascii_tables and kw = "ustr ''bug''"
      and ?txt.0 = ?t, THEN conjunct2, THEN conjunct1] h1
  obtain ps where "keyword_matches ascii_tables (ustr ''bug'') ?t = length ps"
    and "\<forall>i\<in>set ps. whole_word_at ascii_tables (ustr ''bug'') ?t i"
    and "sorted_wrt (\<lambda>i j. i + length (ustr ''bug'') \<le> j) ps"
    by blast
  with h2 have "length ps = 2
         \<and> list_all (whole_word_at ascii_tables (ustr ''bug'') ?t) ps
         \<and> sorted_wrt (\<lambda>i j. i + 3 \<le> j) ps"
    by (simp add: list_all_iff len)
  then have p1: "\<exists>ps. length ps = 2
         \<and> list_all (whole_word_at ascii_tables (ustr ''bug'') ?t) ps
         \<and> sorted_wrt (\<lambda>i j. i + 3 \<le> j) ps"
    by (rule exI)
  from scorer_counts_whole_words[where U = ascii_tables and kw = "ustr ''bug''"
      and ?txt.0 = ?t and i = 2, THEN conjunct2, THEN conjunct2, THEN conjunct1] h1 h3
  have p2: "\<not> is_word ascii_tables (?t ! 1) \<and> \<not> is_word ascii_tables (?t ! 5)"
    by (simp add: ustr_def ascii_fields ascii_word_def)
  have p3: "calculate_score ascii_tables ?t bug_keywords = Inr 8"
    unfolding scorer_counts_whole_words[where U = ascii_tables and keyword_dict = bug_keywords
      and ?text = ?t, THEN conjunct2, THEN conjunct2, THEN conjunct2, THEN conjunct1,
      THEN mp, OF h4]
    by (simp add: bug_keywords_def tier_weight_def kw_eval)
  have f1: "find (\<lambda>k. \<exists>pre post. take 100 (str_lower ascii_tables (issue_title ?i1)) = pre @ k @ post)
          negative_keywords = Some (ustr ''typo'')"
    unfolding str_in_iff[symmetric]
    by (simp add: negative_keywords_def ascii_fields ascii_lower_def ustr_def)
  from scorer_counts_whole_words[where U = ascii_tables and ?i0.0 = ?i1 and k = "ustr ''typo''",
      THEN conjunct2, THEN conjunct2, THEN conjunct2, THEN conjunct2, THEN conjunct2, THEN conjunct2, THEN conjunct2, THEN conjunct1] f1
  have p4: "is_suitable_programming_issue ascii_tables ?i1
       = (False, ustr ''Contains negative keyword: '' @ [39] @ ustr ''typo'' @ [39])"
    by blast
  have f2: "find (\<lambda>k. \<exists>pre post. take 100 (str_lower ascii_tables (issue_title ?i2)) = pre @ k @ post)
          negative_keywords = None"
    unfolding str_in_iff[symmetric]
    by (simp add: negative_keywords_def ascii_fields ascii_lower_def ustr_def)
  have f3: "find (\<lambda>k. (\<exists>pre post. str_lower ascii_tables (str_lower ascii_tables (issue_title ?i2))
                                    = pre @ k @ post)
                   \<or> (\<exists>pre post. str_lower ascii_tables (take 500 (str_lower ascii_tables (issue_body ?i2)))
                                    = pre @ k @ post))
          cross_platform_keywords = Some (ustr ''web'')"
    unfolding str_in_iff[symmetric]
    by (simp add: cross_platform_keywords_def ascii_fields ascii_lower_def ustr_def)
  from scorer_counts_whole_words[where U = ascii_tables and ?i0.0 = ?i2 and k = "ustr ''web''",
      THEN conjunct2, THEN conjunct2, THEN conjunct2, THEN conjunct2, THEN conjunct2, THEN conjunct2, THEN conjunct2, THEN conjunct2, THEN conjunct1] f2 f3
  have p5: "is_suitable_programming_issue ascii_tables ?i2
       = (False, ustr ''Cross-platform issue not suitable for fixed environment: ''
                   @ [39] @ ustr ''web'' @ [39])"
    by blast
  have g1: "find (\<lambda>k. \<exists>pre post. take 100 (str_lower ascii_tables (issue_title ?i3)) = pre @ k @ post)
          negative_keywords = None"
    unfolding str_in_iff[symmetric]
    by (simp add: negative_keywords_def ascii_fields ascii_lower_def ustr_def)
  have g2: "find (\<lambda>k. (\<exists>pre post. str_lower ascii_tables (str_lower ascii_tables (issue_title ?i3))
                                    = pre @ k @ post)
                   \<or> (\<exists>pre post. str_lower ascii_tables (take 500 (str_lower ascii_tables (issue_body ?i3)))
                                    = pre @ k @ post))
          cross_platform_keywords = None"
    unfolding str_in_iff[symmetric]
    by (simp add: cross_platform_keywords_def ascii_fields ascii_lower_def ustr_def)
  have g3: "find (\<lambda>l. l \<in> set (map (str_lower ascii_tables) (issue_labels ?i3))) negative_labels = None"
    by (simp add: negative_labels_def)
  have g4: "ustr ''class'' \<in> set positive_keywords" by (simp add: positive_keywords_def)
  have "str_lower ascii_tables (issue_title ?i3) = ustr ''re'' @ ustr ''class'' @ ustr ''ify the nodes''"
    by (simp add: ascii_fields ascii_lower_def ustr_def)
  then have g5: "(\<exists>pre post. str_lower ascii_tables (issue_title ?i3) = pre @ ustr ''class'' @ post)
            \<or> (\<exists>pre post. take 500 (str_lower ascii_tables (issue_body ?i3)) = pre @ ustr ''class'' @ post)"
    by blast
  from scorer_counts_whole_words[where U = ascii_tables and ?i0.0 = ?i3 and k = "ustr ''class''",
      THEN conjunct2, THEN conjunct2, THEN conjunct2, THEN conjunct2, THEN conjunct2, THEN conjunct2, THEN conjunct2, THEN conjunct2, THEN conjunct2]
    g1 g2 g3 g4 g5
  have p6: "fst (is_suitable_programming_issue ascii_tables ?i3)"
    by blast
  from h1 h2 p1 h3 p2 h4 p3 p4 p5 p6 show ?thesis by (intro conjI) simp_all
qed

text \<open>
  The claim as it is written also covers the keyword tests of the suitability filter and
  says that a keyword there is matched only as a whole word. The title
  ``Add typography support'' is rejected for the negative keyword ``typo'', which does not
  occur in it as a word: the whole-word count of ``typo'' in that title is 0.
\<close>

theorem filter_matches_inside_words:
  "is_suitable_programming_issue ascii_tables
      \<lparr>issue_title = ustr ''Add typography support'', issue_body = [], issue_labels = []\<rparr>
     = (False, ustr ''Contains negative keyword: '' @ [39] @ ustr ''typo'' @ [39])
   \<and> keyword_matches ascii_tables (ustr ''typo'')
       (str_lower ascii_tables (ustr ''Add typography support'')) = 0"
proof -
  have "find (\<lambda>keyword. str_in keyword
                (take 100 (str_lower ascii_tables (ustr ''Add typography support''))))
          negative_keywords = Some (ustr ''typo'')"
    by (simp add: negative_keywords_def ascii_fields ascii_lower_def ustr_def)
  then have a: "is_suitable_programming_issue ascii_tables
      \<lparr>issue_title = ustr ''Add typography support'', issue_body = [], issue_labels = []\<rparr>
     = (False, ustr ''Contains negative keyword: '' @ [39] @ ustr ''typo'' @ [39])"
    using negative_keyword_rejects[of ascii_tables
        "\<lparr>issue_title = ustr ''Add typography support'', issue_body = [], issue_labels = []\<rparr>"
        "ustr ''typo''"]
    by (simp add: quoted_def)
  have b: "keyword_matches ascii_tables (ustr ''typo'')
       (str_lower ascii_tables (ustr ''Add typography support'')) = 0"
    by (simp add: kw_eval)
  from a b show ?thesis by (rule conjI)
qed

section \<open>The exact gain of one more occurrence\<close>

lemma kw_at_append_iff:
  "length kw \<le> length u \<Longrightarrow> \<not> is_word U sep \<Longrightarrow>
     kw_at U kw p (u @ sep # w) = kw_at U kw p u"
  by (simp add: kw_at_iff bnd_append_sep)

lemma kw_pos_append_iff:
  "i + length kw \<le> length s \<Longrightarrow> \<not> is_word U sep \<Longrightarrow>
     kw_pos U kw p (s @ sep # w) i = kw_pos U kw p s i"
  by (simp add: kw_pos_def kw_at_append_iff)

lemma count_at_zero:
  assumes kw: "kw \<noteq> []"
  shows "\<forall>q\<ge>i. \<not> kw_pos U kw p s q \<Longrightarrow> count_at U kw p s i = 0"
proof (induction "length s - i" arbitrary: i rule: less_induct)
  case less
  show ?case
  proof (cases "i < length s")
    case False
    then show ?thesis by (simp add: count_at_end[OF kw])
  next
    case True
    from less.prems have n: "\<not> kw_pos U kw p s i" by simp
    from True have "length s - Suc i < length s - i" by linarith
    moreover from less.prems have "\<forall>q\<ge>Suc i. \<not> kw_pos U kw p s q" by simp
    ultimately have "count_at U kw p s (Suc i) = 0" by (rule less.hyps)
    with count_at_miss[OF True n] show ?thesis by simp
  qed
qed

lemma count_at_split:
  assumes kw: "kw \<noteq> []" and sep: "\<not> is_word U sep"
    and span: "\<forall>q\<le>length s. kw_pos U kw p (s @ sep # w) q \<longrightarrow> q + length kw \<le> length s"
  shows "i \<le> length s \<Longrightarrow>
     count_at U kw p (s @ sep # w) i
       = count_at U kw p s i + count_at U kw p (s @ sep # w) (Suc (length s))"
proof (induction "length s - i" arbitrary: i rule: less_induct)
  case less
  let ?st = "s @ sep # w"
  from kw have n: "0 < length kw" by simp
  show ?case
  proof (cases "i = length s")
    case True
    have "\<not> kw_pos U kw p ?st (length s)"
      using span n by auto
    moreover have "length s < length ?st" by simp
    ultimately have "count_at U kw p ?st (length s) = count_at U kw p ?st (Suc (length s))"
      by (intro count_at_miss)
    with True show ?thesis by (simp add: count_at_end[OF kw])
  next
    case False
    with less.prems have lt: "i < length s" by simp
    then have lt': "i < length ?st" by simp
    show ?thesis
    proof (cases "kw_pos U kw p s i")
      case True
      have fit: "i + length kw \<le> length s" by (rule kw_pos_fits[OF True kw])
      from n fit lt have "length s - (i + length kw) < length s - i" by linarith
      from less.hyps[OF this fit]
      have "count_at U kw p ?st (i + length kw)
              = count_at U kw p s (i + length kw) + count_at U kw p ?st (Suc (length s))" .
      with count_at_hit[OF True kw]
        count_at_hit[OF kw_pos_append[OF less.prems True sep, of w] kw]
      show ?thesis by simp
    next
      case False
      have no: "\<not> kw_pos U kw p ?st i"
      proof
        assume a: "kw_pos U kw p ?st i"
        with span less.prems have "i + length kw \<le> length s" by blast
        from kw_pos_append_iff[OF this sep, of p w] a False show False by simp
      qed
      from lt have "length s - Suc i < length s - i" "Suc i \<le> length s" by linarith+
      from less.hyps[OF this]
      have "count_at U kw p ?st (Suc i)
              = count_at U kw p s (Suc i) + count_at U kw p ?st (Suc (length s))" .
      with count_at_miss[OF lt False] count_at_miss[OF lt' no] show ?thesis by simp
    qed
  qed
qed

lemma count_at_appended:
  assumes kw: "k \<noteq> []" and w: "is_word U (hd k)" "is_word U (last k)"
    and e: "list_all2 (ieq U) k k" and sep: "\<not> is_word U sep"
  shows "count_at U k p (s @ sep # k) (Suc (length s)) = 1"
proof -
  have "kw_pos U k p (s @ sep # k) (Suc (length s))"
    using kw_at_self[OF kw w e sep] by (simp add: kw_pos_def last_opt_def)
  from count_at_hit[OF this kw]
  have "count_at U k p (s @ sep # k) (Suc (length s))
          = Suc (count_at U k p (s @ sep # k) (Suc (length s) + length k))" .
  moreover have "count_at U k p (s @ sep # k) (Suc (length s) + length k) = 0"
    by (rule count_at_end[OF kw]) simp
  ultimately show ?thesis by simp
qed

lemma only_appended_pos:
  assumes "only_appended U kd s sep k" and "e \<in> set kd" and "kw \<in> set (snd e)"
    and "kw \<noteq> []" and "kw_pos U kw None (s @ sep # k) q"
  shows "q + length kw \<le> length s \<or> (kw = k \<and> q = Suc (length s))"
proof -
  from assms(4,5) have ww: "whole_word_at U kw (s @ sep # k) q"
    by (simp add: whole_word_kw_pos)
  then have "q + length kw \<le> length (s @ sep # k)" by (simp add: whole_word_at_def)
  then have "q < length s + length k + 2" by simp
  then have "q \<in> set [0..<length s + length k + 2]"
    by (simp only: set_upt atLeastLessThan_iff) simp
  with assms(1,2,3) ww show ?thesis
    unfolding only_appended_def list_all_iff by blast
qed

lemma keyword_matches_exact:
  assumes oa: "only_appended U kd s sep k" and mem: "e \<in> set kd" "kw \<in> set (snd e)"
    and ne: "kw \<noteq> []" and sep: "\<not> is_word U sep"
    and w: "is_word U (hd k)" "is_word U (last k)" and r: "list_all2 (ieq U) k k"
  shows "keyword_matches U kw (s @ sep # k)
           = keyword_matches U kw s + (if kw = k then 1 else 0)"
proof -
  let ?st = "s @ sep # k"
  note pos = only_appended_pos[OF oa mem ne]
  have span: "\<forall>q\<le>length s. kw_pos U kw None ?st q \<longrightarrow> q + length kw \<le> length s"
    using pos by fastforce
  from count_at_split[OF ne sep span, of 0]
  have split: "count_at U kw None ?st 0
                 = count_at U kw None s 0 + count_at U kw None ?st (Suc (length s))"
    by simp
  show ?thesis
  proof (cases "kw = k")
    case True
    with count_at_appended[OF _ w r sep, of None s] ne split show ?thesis
      by (simp add: keyword_matches_count_at)
  next
    case False
    from ne have n: "0 < length kw" by simp
    have "\<forall>q\<ge>Suc (length s). \<not> kw_pos U kw None ?st q"
      using pos False n by fastforce
    from count_at_zero[OF ne this] split False show ?thesis
      by (simp add: keyword_matches_count_at)
  qed
qed

lemma sum_list_count:
  fixes w :: real
  assumes "\<forall>kw\<in>set kws. g kw = f kw + (if kw = k then 1 else (0::nat))"
  shows "(\<Sum>kw\<leftarrow>kws. real (g kw) * w) = (\<Sum>kw\<leftarrow>kws. real (f kw) * w) + real (count_list kws k) * w"
  using assms by (induction kws) (auto simp: algebra_simps)

lemma listed_once_weight:
  "(\<Sum>e\<leftarrow>kd. count_list (snd e) k) = 1 \<Longrightarrow> (l, kws) \<in> set kd \<Longrightarrow> k \<in> set kws \<Longrightarrow>
     (\<Sum>e\<leftarrow>kd. real (count_list (snd e) k) * tier_weight (fst e)) = tier_weight l"
proof (induction kd)
  case Nil
  then show ?case by simp
next
  case (Cons e kd)
  from Cons.prems(3) have pos: "0 < count_list kws k"
    using count_list_0_iff[of kws k] by auto
  show ?case
  proof (cases "e = (l, kws)")
    case True
    from Cons.prems(1) True
    have s: "count_list kws k + (\<Sum>e\<leftarrow>kd. count_list (snd e) k) = 1" by simp
    from s pos have one: "count_list kws k = 1"
      and z: "(\<Sum>e\<leftarrow>kd. count_list (snd e) k) = 0" by linarith+
    from z have "\<forall>e\<in>set kd. count_list (snd e) k = 0" by (simp add: sum_list_eq_0_iff)
    then have "(\<Sum>e\<leftarrow>kd. real (count_list (snd e) k) * tier_weight (fst e)) = 0"
      by (induction kd) auto
    with True one show ?thesis by simp
  next
    case False
    with Cons.prems(2) have m: "(l, kws) \<in> set kd" by simp
    then have "count_list (snd (l, kws)) k \<le> (\<Sum>e\<leftarrow>kd. count_list (snd e) k)"
      by (induction kd) auto
    moreover from Cons.prems(1)
    have "count_list (snd e) k + (\<Sum>e\<leftarrow>kd. count_list (snd e) k) = 1" by simp
    ultimately have "count_list (snd e) k = 0"
      and "(\<Sum>e\<leftarrow>kd. count_list (snd e) k) = 1" using pos by simp_all
    with Cons.IH[OF this(2) m Cons.prems(3)] show ?thesis by simp
  qed
qed

lemma score_sum_append_exact:
  assumes ne: "nonempty_keywords kd"
    and mem: "(ustr ''high'', kws) \<in> set kd" "k \<in> set kws"
    and w: "is_word U (hd k)" "is_word U (last k)" and e: "list_all2 (ieq U) k k"
    and sep: "\<not> is_word U sep"
    and once: "listed_once kd k" and oa: "only_appended U kd s sep k"
  shows "score_sum U (s @ sep # k) kd = score_sum U s kd + 3"
proof -
  let ?st = "s @ sep # k"
  have inner: "(\<Sum>kw\<leftarrow>snd e'. real (keyword_matches U kw ?st) * tier_weight (fst e'))
                 = (\<Sum>kw\<leftarrow>snd e'. real (keyword_matches U kw s) * tier_weight (fst e'))
                   + real (count_list (snd e') k) * tier_weight (fst e')"
    if e': "e' \<in> set kd" for e'
  proof (rule sum_list_count, rule ballI)
    fix kw assume kw: "kw \<in> set (snd e')"
    with e' ne have "kw \<noteq> []" by (auto simp: nonempty_keywords_def list_all_iff)
    from keyword_matches_exact[OF oa e' kw this sep w e]
    show "keyword_matches U kw ?st = keyword_matches U kw s + (if kw = k then 1 else 0)" .
  qed
  have outer: "(\<Sum>e'\<leftarrow>xs. \<Sum>kw\<leftarrow>snd e'. real (keyword_matches U kw ?st) * tier_weight (fst e'))
                 = (\<Sum>e'\<leftarrow>xs. \<Sum>kw\<leftarrow>snd e'. real (keyword_matches U kw s) * tier_weight (fst e'))
                   + (\<Sum>e'\<leftarrow>xs. real (count_list (snd e') k) * tier_weight (fst e'))"
    if "set xs \<subseteq> set kd" for xs
    using that by (induction xs) (simp_all add: inner)
  have "(\<Sum>e'\<leftarrow>kd. real (count_list (snd e') k) * tier_weight (fst e')) = tier_weight (ustr ''high'')"
    using once mem by (intro listed_once_weight) (simp_all add: listed_once_def)
  then have "(\<Sum>e'\<leftarrow>kd. real (count_list (snd e') k) * tier_weight (fst e')) = 3"
    by (simp add: tier_weight_def)
  with outer[of kd] show ?thesis by (simp add: score_sum_def)
qed

text \<open>
  Claim C7, as amended. For a lexicon of non-empty keywords with the levels high, medium
  and low, appending to a text a character that is not a word character and then a
  high-weight keyword (one that begins and ends with a word character, written in lower
  case so that lowering the new text only adds these characters) never lowers the score
  and raises it by at least the weight of the level, 3.0. The score rises by exactly 3.0
  when the text is not empty, the keyword is listed once in the whole lexicon, and in the
  new text every whole-word occurrence of a keyword of the lexicon lies inside the old
  text, except for the appended occurrence itself.
\<close>

theorem appended_keyword_raises_score:
  assumes "valid_levels keyword_dict" and "nonempty_keywords keyword_dict"
    and "(ustr ''high'', keywords) \<in> set keyword_dict" and "keyword \<in> set keywords"
    and "is_word U (hd keyword)" and "is_word U (last keyword)"
    and "list_all2 (ieq U) keyword keyword"
    and "\<not> is_word U sep"
    and "str_lower U (text @ sep # keyword) = str_lower U text @ sep # keyword"
  shows "\<exists>a b. calculate_score U text keyword_dict = Inr a
           \<and> calculate_score U (text @ sep # keyword) keyword_dict = Inr b
           \<and> a + 3 \<le> b
           \<and> (text \<noteq> [] \<and> listed_once keyword_dict keyword
                \<and> only_appended U keyword_dict (str_lower U text) sep keyword
              \<longrightarrow> b = a + 3)"
proof -
  let ?a = "if text = [] then 0 else score_sum U (str_lower U text) keyword_dict"
  let ?b = "score_sum U (str_lower U text @ sep # keyword) keyword_dict"
  have a: "calculate_score U text keyword_dict = Inr ?a"
    by (rule calculate_score_eq[OF assms(1)])
  have b: "calculate_score U (text @ sep # keyword) keyword_dict = Inr ?b"
    using calculate_score_eq[OF assms(1), of U "text @ sep # keyword"] assms(9) by simp
  have "score_sum U (str_lower U text) keyword_dict + 3 \<le> ?b"
    by (rule score_sum_append_gain[OF assms(2) assms(1) assms(3-8)])
  moreover have "?a \<le> score_sum U (str_lower U text) keyword_dict"
    by (simp add: score_sum_nonneg)
  ultimately have c: "?a + 3 \<le> ?b" by linarith
  have d: "text \<noteq> [] \<and> listed_once keyword_dict keyword
                \<and> only_appended U keyword_dict (str_lower U text) sep keyword
              \<longrightarrow> ?b = ?a + 3"
  proof
    assume h: "text \<noteq> [] \<and> listed_once keyword_dict keyword
                \<and> only_appended U keyword_dict (str_lower U text) sep keyword"
    then have once: "listed_once keyword_dict keyword"
      and oa: "only_appended U keyword_dict (str_lower U text) sep keyword" by simp_all
    from score_sum_append_exact[OF assms(2) assms(3-8) once oa] h
    show "?b = ?a + 3" by simp
  qed
  from a b c d show ?thesis by blast
qed

lemma ex_a_bug_scores:
  "calculate_score ascii_tables (ustr ''a bug'') bug_keywords = Inr 3"
  "calculate_score ascii_tables (ustr ''a bug'' @ 32 # ustr ''bug'') bug_keywords = Inr 6"
  unfolding bug_score_eq
  by (simp_all add: bug_raw_def score_sum_def bug_keywords_def tier_weight_def kw_eval)

lemma ex_a_bug_once: "listed_once bug_keywords (ustr ''bug'')"
  by (simp add: listed_once_def bug_keywords_def ustr_def)

lemma ex_a_bug_only:
  "only_appended ascii_tables bug_keywords (str_lower ascii_tables (ustr ''a bug'')) 32 (ustr ''bug'')"
  by (simp add: only_appended_def bug_keywords_def whole_word_at_def bnd_def last_opt_def
      ascii_fields ascii_word_def ascii_lower_def ustr_def upt_rec)

theorem appended_keyword_raises_score_witness:
  "valid_levels bug_keywords \<and> nonempty_keywords bug_keywords
   \<and> (ustr ''high'', snd (hd bug_keywords)) \<in> set bug_keywords
   \<and> ustr ''bug'' \<in> set (snd (hd bug_keywords))
   \<and> is_word ascii_tables (hd (ustr ''bug'')) \<and> is_word ascii_tables (last (ustr ''bug''))
   \<and> list_all2 (ieq ascii_tables) (ustr ''bug'') (ustr ''bug'')
   \<and> \<not> is_word ascii_tables 32
   \<and> str_lower ascii_tables (ustr ''a bug'' @ 32 # ustr ''bug'')
       = str_lower ascii_tables (ustr ''a bug'') @ 32 # ustr ''bug''
   \<and> ustr ''a bug'' \<noteq> []
   \<and> listed_once bug_keywords (ustr ''bug'')
   \<and> only_appended ascii_tables bug_keywords (str_lower ascii_tables (ustr ''a bug'')) 32
        (ustr ''bug'')
   \<and> (\<exists>a. calculate_score ascii_tables (ustr ''a bug'') bug_keywords = Inr a
         \<and> calculate_score ascii_tables (ustr ''a bug'' @ 32 # ustr ''bug'') bug_keywords
             = Inr (a + 3))
   \<and> calculate_score ascii_tables (ustr ''a bug'') bug_keywords = Inr 3
   \<and> calculate_score ascii_tables (ustr ''a bug'' @ 32 # ustr ''bug'') bug_keywords = Inr 6"
proof -
  have h1: "valid_levels bug_keywords" by (rule valid_bug)
  have h2: "nonempty_keywords bug_keywords"
    by (simp add: nonempty_keywords_def bug_keywords_def ustr_def)
  have h3: "(ustr ''high'', snd (hd bug_keywords)) \<in> set bug_keywords"
    by (simp add: bug_keywords_def)
  have h4: "ustr ''bug'' \<in> set (snd (hd bug_keywords))"
    by (simp add: bug_keywords_def)
  have h5: "is_word ascii_tables (hd (ustr ''bug''))"
    and h6: "is_word ascii_tables (last (ustr ''bug''))"
    and h7: "list_all2 (ieq ascii_tables) (ustr ''bug'') (ustr ''bug'')"
    and h8: "\<not> is_word ascii_tables 32"
    by (simp_all add: ustr_def ascii_fields ascii_word_def)
  have h9: "str_lower ascii_tables (ustr ''a bug'' @ 32 # ustr ''bug'')
       = str_lower ascii_tables (ustr ''a bug'') @ 32 # ustr ''bug''"
    by (simp add: ustr_def ascii_fields ascii_lower_def)
  have h10: "ustr ''a bug'' \<noteq> []" by (simp add: ustr_def)
  from appended_keyword_raises_score[OF h1 h2 h3 h4 h5 h6 h7 h8 h9] h10 ex_a_bug_once ex_a_bug_only
  obtain a b where "calculate_score ascii_tables (ustr ''a bug'') bug_keywords = Inr a"
    and "calculate_score ascii_tables (ustr ''a bug'' @ 32 # ustr ''bug'') bug_keywords = Inr b"
    and "b = a + 3" by blast
  then have r: "\<exists>a. calculate_score ascii_tables (ustr ''a bug'') bug_keywords = Inr a
         \<and> calculate_score ascii_tables (ustr ''a bug'' @ 32 # ustr ''bug'') bug_keywords
             = Inr (a + 3)"
    by blast
  from h1 h2 h3 h4 h5 h6 h7 h8 h9 h10 ex_a_bug_once ex_a_bug_only r ex_a_bug_scores
  show ?thesis by (intro conjI)
qed

text \<open>
  The claim as it is written promises an increase of exactly 3.0 for every lexicon and
  every high-weight keyword. The enhancement lexicon lists ``extend'' both as a
  high-weight and as a low-weight keyword, and the score sums over every level: one more
  occurrence adds 4.0. And in a lexicon whose high level lists ``b'' and ``a b'', the
  text ``b a'' followed by one more ``b'' also completes an occurrence of ``a b'': the
  score goes from 3.0 to 9.0.
\<close>

theorem appended_keyword_not_exactly_three:
  "fst (hd enhancement_keywords) = ustr ''high''
   \<and> ustr ''extend'' \<in> set (snd (hd enhancement_keywords))
   \<and> calculate_score ascii_tables (ustr ''extend'') enhancement_keywords = Inr 4
   \<and> calculate_score ascii_tables (ustr ''extend extend'') enhancement_keywords = Inr 8
   \<and> (8::real) \<noteq> 4 + 3
   \<and> calculate_score ascii_tables (ustr ''b a'') [(ustr ''high'', [ustr ''b'', ustr ''a b''])]
       = Inr 3
   \<and> calculate_score ascii_tables (ustr ''b a b'') [(ustr ''high'', [ustr ''b'', ustr ''a b''])]
       = Inr 9
   \<and> (9::real) \<noteq> 3 + 3"
proof -
  have v: "valid_levels [(ustr ''high'', [ustr ''b'', ustr ''a b''])]"
    by (simp add: valid_levels_def)
  have f: "calculate_score ascii_tables (ustr ''b a'') [(ustr ''high'', [ustr ''b'', ustr ''a b''])]
       = Inr 3"
    and g: "calculate_score ascii_tables (ustr ''b a b'') [(ustr ''high'', [ustr ''b'', ustr ''a b''])]
       = Inr 9"
    unfolding calculate_score_eq[OF v]
    by (simp_all add: score_sum_def tier_weight_def kw_eval)
  have a: "fst (hd enhancement_keywords) = ustr ''high''"
    and b: "ustr ''extend'' \<in> set (snd (hd enhancement_keywords))"
    by (simp_all add: enhancement_keywords_def)
  have c: "calculate_score ascii_tables (ustr ''extend'') enhancement_keywords = Inr 4"
    and d: "calculate_score ascii_tables (ustr ''extend extend'') enhancement_keywords = Inr 8"
    unfolding enhancement_score_eq
    by (simp_all add: enhancement_raw_def score_sum_def enhancement_keywords_def tier_weight_def
        kw_eval)
  have e: "(8::real) \<noteq> 4 + 3" and h: "(9::real) \<noteq> 3 + 3" by simp_all
  from a b c d e f g h show ?thesis by (intro conjI)
qed

section \<open>The model-backed filter\<close>

lemma py_getattr_raises: "py_getattr obj name = Inl e \<Longrightarrow> is_exception e"
  by (cases obj) (auto simp: no_attribute_def split: option.splits)

lemma py_item0_raises: "py_item0 obj = Inl e \<Longrightarrow> is_exception e"
  by (induction obj rule: py_item0.induct) auto

lemma py_strip_raises: "py_strip U obj = Inl e \<Longrightarrow> is_exception e"
  by (cases obj) (auto simp: no_attribute_def split: option.splits)

lemma llm_try_returns_raises:
  assumes "llm_try U (Returns response) = Inl e"
  shows "is_exception e"
proof -
  have b: "and_then r f = Inl e \<Longrightarrow> (r = Inl e \<or> (\<exists>v. r = Inr v \<and> f v = Inl e))"
    for r :: "py_error + 'a" and f :: "'a \<Rightarrow> py_error + 'b"
    by (cases r) (simp_all add: and_then_def)
  from assms show ?thesis
    unfolding llm_try_def client_outcome.case
    by (auto dest!: b dest: py_getattr_raises py_item0_raises py_strip_raises)
qed

lemma llm_caught:
  assumes "llm_try U (client model (chat_messages i reference_problems)) = Inl e"
    and "is_exception e"
  shows "is_suitable_programming_issue_llm U model i client reference_problems
           = ([ustr ''Warning: LLM analysis failed: '' @ error_str e],
              Inr (False, ustr ''LLM analysis error: '' @ error_str e))"
  using assms by (simp add: is_suitable_programming_issue_llm_def)

lemma llm_verdict:
  assumes "llm_try U (client model (chat_messages i reference_problems)) = Inr v"
  shows "is_suitable_programming_issue_llm U model i client reference_problems = ([], Inr v)"
  using assms by (simp add: is_suitable_programming_issue_llm_def)

lemma llm_not_caught:
  assumes "llm_try U (client model (chat_messages i reference_problems)) = Inl e"
    and "\<not> is_exception e"
  shows "is_suitable_programming_issue_llm U model i client reference_problems = ([], Inl e)"
  using assms by (simp add: is_suitable_programming_issue_llm_def)

text \<open>
  Claim C9, as amended. For every issue and every client: when the call or the handling
  of the response raises an exception that is an instance of \<^verbatim>\<open>Exception\<close>, the
  function prints a warning and returns \<open>False\<close> with the reason
  ``LLM analysis error: '' followed by the text of the exception, and the exception does
  not reach the caller. Every exception that the handling of a returned response can
  raise is of that kind, whatever the response object is; so whenever the client returns,
  the function returns a pair. An exception of the client that is a
  \<^verbatim>\<open>BaseException\<close> only (\<^verbatim>\<open>KeyboardInterrupt\<close>, \<^verbatim>\<open>SystemExit\<close>) is not caught
  and reaches the caller.
\<close>

theorem llm_failure_is_rejection:
  "(client model (chat_messages i reference_problems) = Raises e \<and> is_exception e \<longrightarrow>
      is_suitable_programming_issue_llm U model i client reference_problems
        = ([ustr ''Warning: LLM analysis failed: '' @ error_str e],
           Inr (False, ustr ''LLM analysis error: '' @ error_str e)))
   \<and> (client model (chat_messages i reference_problems) = Returns response \<longrightarrow>
        (\<exists>verdict. snd (is_suitable_programming_issue_llm U model i client reference_problems)
                     = Inr verdict)
        \<and> (\<forall>e'. llm_try U (Returns response) = Inl e' \<longrightarrow>
              is_exception e'
              \<and> is_suitable_programming_issue_llm U model i client reference_problems
                  = ([ustr ''Warning: LLM analysis failed: '' @ error_str e'],
                     Inr (False, ustr ''LLM analysis error: '' @ error_str e'))))
   \<and> (client model (chat_messages i reference_problems) = Returns (PyObject cls []) \<longrightarrow>
        snd (is_suitable_programming_issue_llm U model i client reference_problems)
          = Inr (False, ustr ''LLM analysis error: '' @ [39] @ cls @ [39]
                          @ ustr '' object has no attribute '' @ [39] @ ustr ''choices'' @ [39]))
   \<and> (client model (chat_messages i reference_problems)
          = Returns (PyObject cls [(''choices'', PyList [])]) \<longrightarrow>
        snd (is_suitable_programming_issue_llm U model i client reference_problems)
          = Inr (False, ustr ''LLM analysis error: list index out of range''))
   \<and> (client model (chat_messages i reference_problems)
          = Returns (PyObject cls [(''choices'',
               PyList [PyObject cls' [(''message'', PyObject cls'' [(''content'', PyNone)])]])]) \<longrightarrow>
        snd (is_suitable_programming_issue_llm U model i client reference_problems)
          = Inr (False, ustr ''LLM analysis error: '' @ [39] @ ustr ''NoneType'' @ [39]
                          @ ustr '' object has no attribute '' @ [39] @ ustr ''strip'' @ [39]))
   \<and> (client model (chat_messages i reference_problems) = Raises e \<and> \<not> is_exception e \<longrightarrow>
        is_suitable_programming_issue_llm U model i client reference_problems = ([], Inl e))"
proof -
  let ?f = "is_suitable_programming_issue_llm U model i client reference_problems"
  let ?call = "client model (chat_messages i reference_problems)"
  have a: "?call = Raises e \<and> is_exception e \<longrightarrow>
      ?f = ([ustr ''Warning: LLM analysis failed: '' @ error_str e],
            Inr (False, ustr ''LLM analysis error: '' @ error_str e))"
    by (auto intro!: llm_caught simp: llm_try_def)
  have b: "?call = Returns response \<longrightarrow>
        (\<exists>verdict. snd ?f = Inr verdict)
        \<and> (\<forall>e'. llm_try U (Returns response) = Inl e' \<longrightarrow>
              is_exception e'
              \<and> ?f = ([ustr ''Warning: LLM analysis failed: '' @ error_str e'],
                     Inr (False, ustr ''LLM analysis error: '' @ error_str e')))"
  proof
    assume r: "?call = Returns response"
    have 1: "is_exception e' \<and> ?f = ([ustr ''Warning: LLM analysis failed: '' @ error_str e'],
                     Inr (False, ustr ''LLM analysis error: '' @ error_str e'))"
      if "llm_try U (Returns response) = Inl e'" for e'
      using that r llm_try_returns_raises[OF that] by (simp add: llm_caught)
    have 2: "\<exists>verdict. snd ?f = Inr verdict"
    proof (cases "llm_try U (Returns response)")
      case (Inl e')
      from 1[OF Inl] have "snd ?f = Inr (False, ustr ''LLM analysis error: '' @ error_str e')"
        by simp
      then show ?thesis by (rule exI)
    next
      case (Inr v)
      with r have "snd ?f = Inr v" by (simp add: llm_verdict)
      then show ?thesis by (rule exI)
    qed
    from 1 2 show "(\<exists>verdict. snd ?f = Inr verdict)
        \<and> (\<forall>e'. llm_try U (Returns response) = Inl e' \<longrightarrow>
              is_exception e'
              \<and> ?f = ([ustr ''Warning: LLM analysis failed: '' @ error_str e'],
                     Inr (False, ustr ''LLM analysis error: '' @ error_str e')))"
      by blast
  qed
  have c: "?call = Returns (PyObject cls []) \<longrightarrow>
        snd ?f = Inr (False, ustr ''LLM analysis error: '' @ [39] @ cls @ [39]
                          @ ustr '' object has no attribute '' @ [39] @ ustr ''choices'' @ [39])"
    by (simp add: is_suitable_programming_issue_llm_def llm_try_def and_then_def
        no_attribute_def quoted_def)
  have d: "?call = Returns (PyObject cls [(''choices'', PyList [])]) \<longrightarrow>
        snd ?f = Inr (False, ustr ''LLM analysis error: list index out of range'')"
    by (simp add: is_suitable_programming_issue_llm_def llm_try_def and_then_def ustr_def)
  have e: "?call = Returns (PyObject cls [(''choices'',
               PyList [PyObject cls' [(''message'', PyObject cls'' [(''content'', PyNone)])]])]) \<longrightarrow>
        snd ?f = Inr (False, ustr ''LLM analysis error: '' @ [39] @ ustr ''NoneType'' @ [39]
                          @ ustr '' object has no attribute '' @ [39] @ ustr ''strip'' @ [39])"
    by (simp add: is_suitable_programming_issue_llm_def llm_try_def and_then_def
        no_attribute_def quoted_def)
  have f: "?call = Raises e \<and> \<not> is_exception e \<longrightarrow> ?f = ([], Inl e)"
    by (auto intro!: llm_not_caught simp: llm_try_def)
  from a b c d e f show ?thesis by (intro conjI)
qed

theorem llm_failure_is_rejection_witness:
  "is_exception (ClientError (ustr ''Request timed out.''))
   \<and> is_suitable_programming_issue_llm ascii_tables (ustr ''glm-4.5-air'')
        \<lparr>issue_title = ustr ''Add a cache'', issue_body = [], issue_labels = []\<rparr>
        (\<lambda>model messages. Raises (ClientError (ustr ''Request timed out.''))) None
       = ([ustr ''Warning: LLM analysis failed: Request timed out.''],
          Inr (False, ustr ''LLM analysis error: Request timed out.''))
   \<and> snd (is_suitable_programming_issue_llm ascii_tables (ustr ''glm-4.5-air'')
        \<lparr>issue_title = ustr ''Add a cache'', issue_body = [], issue_labels = []\<rparr>
        (\<lambda>model messages. Returns (PyObject (ustr ''Completion'') [(''choices'', PyList [])])) None)
       = Inr (False, ustr ''LLM analysis error: list index out of range'')
   \<and> snd (is_suitable_programming_issue_llm ascii_tables (ustr ''glm-4.5-air'')
        \<lparr>issue_title = ustr ''Add a cache'', issue_body = [], issue_labels = []\<rparr>
        (\<lambda>model messages. Returns (PyObject (ustr ''dict'') [])) None)
       = Inr (False, ustr ''LLM analysis error: '' @ [39] @ ustr ''dict'' @ [39]
                       @ ustr '' object has no attribute '' @ [39] @ ustr ''choices'' @ [39])
   \<and> snd (is_suitable_programming_issue_llm ascii_tables (ustr ''glm-4.5-air'')
        \<lparr>issue_title = ustr ''Add a cache'', issue_body = [], issue_labels = []\<rparr>
        (\<lambda>model messages. Returns (PyObject (ustr ''Completion'') [(''choices'',
            PyList [PyObject (ustr ''Choice'')
              [(''message'', PyObject (ustr ''Message'') [(''content'', PyNone)])]])])) None)
       = Inr (False, ustr ''LLM analysis error: '' @ [39] @ ustr ''NoneType'' @ [39]
                       @ ustr '' object has no attribute '' @ [39] @ ustr ''strip'' @ [39])
   \<and> llm_try ascii_tables (Returns (PyList []))
       = Inl (AttributeError ([39] @ ustr ''list'' @ [39] @ ustr '' object has no attribute ''
                @ [39] @ ustr ''choices'' @ [39]))
   \<and> is_suitable_programming_issue_llm ascii_tables (ustr ''glm-4.5-air'')
        \<lparr>issue_title = ustr ''Add a cache'', issue_body = [], issue_labels = []\<rparr>
        (\<lambda>model messages. Returns (PyList [])) None
       = ([ustr ''Warning: LLM analysis failed: '' @ [39] @ ustr ''list'' @ [39]
             @ ustr '' object has no attribute '' @ [39] @ ustr ''choices'' @ [39]],
          Inr (False, ustr ''LLM analysis error: '' @ [39] @ ustr ''list'' @ [39]
             @ ustr '' object has no attribute '' @ [39] @ ustr ''choices'' @ [39]))
   \<and> \<not> is_exception (SystemExit (ustr ''1''))
   \<and> is_suitable_programming_issue_llm ascii_tables (ustr ''glm-4.5-air'')
        \<lparr>issue_title = ustr ''Add a cache'', issue_body = [], issue_labels = []\<rparr>
        (\<lambda>model messages. Raises (SystemExit (ustr ''1''))) None
       = ([], Inl (SystemExit (ustr ''1'')))"
proof -
  let ?i = "\<lparr>issue_title = ustr ''Add a cache'', issue_body = [], issue_labels = []\<rparr>"
  let ?e = "ClientError (ustr ''Request timed out.'')"
  have h: "is_exception ?e" by simp
  from llm_failure_is_rejection[where client = "\<lambda>model messages. Raises ?e"
      and model = "ustr ''glm-4.5-air''" and i = ?i and reference_problems = None and e = ?e
      and U = ascii_tables] h
  have p1: "is_suitable_programming_issue_llm ascii_tables (ustr ''glm-4.5-air'') ?i
        (\<lambda>model messages. Raises ?e) None
       = ([ustr ''Warning: LLM analysis failed: Request timed out.''],
          Inr (False, ustr ''LLM analysis error: Request timed out.''))"
    by (simp add: ustr_def)
  from llm_failure_is_rejection[where client =
        "\<lambda>model messages. Returns (PyObject (ustr ''Completion'') [(''choices'', PyList [])])"
      and model = "ustr ''glm-4.5-air''" and i = ?i and reference_problems = None
      and U = ascii_tables and cls = "ustr ''Completion''"]
  have p2: "snd (is_suitable_programming_issue_llm ascii_tables (ustr ''glm-4.5-air'') ?i
        (\<lambda>model messages. Returns (PyObject (ustr ''Completion'') [(''choices'', PyList [])])) None)
       = Inr (False, ustr ''LLM analysis error: list index out of range'')"
    by simp
  from llm_failure_is_rejection[where client =
        "\<lambda>model messages. Returns (PyObject (ustr ''dict'') [])"
      and model = "ustr ''glm-4.5-air''" and i = ?i and reference_problems = None
      and U = ascii_tables and cls = "ustr ''dict''"]
  have p3: "snd (is_suitable_programming_issue_llm ascii_tables (ustr ''glm-4.5-air'') ?i
        (\<lambda>model messages. Returns (PyObject (ustr ''dict'') [])) None)
       = Inr (False, ustr ''LLM analysis error: '' @ [39] @ ustr ''dict'' @ [39]
                       @ ustr '' object has no attribute '' @ [39] @ ustr ''choices'' @ [39])"
    by simp
  from llm_failure_is_rejection[where client =
        "\<lambda>model messages. Returns (PyObject (ustr ''Completion'') [(''choices'',
            PyList [PyObject (ustr ''Choice'')
              [(''message'', PyObject (ustr ''Message'') [(''content'', PyNone)])]])])"
      and model = "ustr ''glm-4.5-air''" and i = ?i and reference_problems = None
      and U = ascii_tables and cls = "ustr ''Completion''" and cls' = "ustr ''Choice''"
      and cls'' = "ustr ''Message''"]
  have p4: "snd (is_suitable_programming_issue_llm ascii_tables (ustr ''glm-4.5-air'') ?i
        (\<lambda>model messages. Returns (PyObject (ustr ''Completion'') [(''choices'',
            PyList [PyObject (ustr ''Choice'')
              [(''message'', PyObject (ustr ''Message'') [(''content'', PyNone)])]])])) None)
       = Inr (False, ustr ''LLM analysis error: '' @ [39] @ ustr ''NoneType'' @ [39]
                       @ ustr '' object has no attribute '' @ [39] @ ustr ''strip'' @ [39])"
    by simp
  have p5: "llm_try ascii_tables (Returns (PyList []))
       = Inl (AttributeError ([39] @ ustr ''list'' @ [39] @ ustr '' object has no attribute ''
                @ [39] @ ustr ''choices'' @ [39]))"
    by (simp add: llm_try_def and_then_def no_attribute_def quoted_def)
  from llm_failure_is_rejection[where client = "\<lambda>model messages. Returns (PyList [])"
      and model = "ustr ''glm-4.5-air''" and i = ?i and reference_problems = None
      and response = "PyList []" and U = ascii_tables] p5
  have p6: "is_suitable_programming_issue_llm ascii_tables (ustr ''glm-4.5-air'') ?i
        (\<lambda>model messages. Returns (PyList [])) None
       = ([ustr ''Warning: LLM analysis failed: '' @ [39] @ ustr ''list'' @ [39]
             @ ustr '' object has no attribute '' @ [39] @ ustr ''choices'' @ [39]],
          Inr (False, ustr ''LLM analysis error: '' @ [39] @ ustr ''list'' @ [39]
             @ ustr '' object has no attribute '' @ [39] @ ustr ''choices'' @ [39]))"
    by simp
  have h': "\<not> is_exception (SystemExit (ustr ''1''))" by simp
  from llm_failure_is_rejection[where client = "\<lambda>model messages. Raises (SystemExit (ustr ''1''))"
      and model = "ustr ''glm-4.5-air''" and i = ?i and reference_problems = None
      and e = "SystemExit (ustr ''1'')" and U = ascii_tables] h'
  have p7: "is_suitable_programming_issue_llm ascii_tables (ustr ''glm-4.5-air'') ?i
        (\<lambda>model messages. Raises (SystemExit (ustr ''1''))) None
       = ([], Inl (SystemExit (ustr ''1'')))"
    by simp
  from h p1 p2 p3 p4 p5 p6 h' p7 show ?thesis by (intro conjI)
qed

text \<open>
  The claim as it is written says that no exception raised by the call reaches the
  caller. The handler is \<^verbatim>\<open>except Exception\<close>: a \<^verbatim>\<open>KeyboardInterrupt\<close> raised
  while the client waits for the service is not an instance of \<^verbatim>\<open>Exception\<close> and
  leaves the function.
\<close>

theorem llm_interrupt_propagates:
  "is_suitable_programming_issue_llm ascii_tables (ustr ''glm-4.5-air'')
      \<lparr>issue_title = ustr ''Add a cache'', issue_body = [], issue_labels = []\<rparr>
      (\<lambda>model messages. Raises KeyboardInterrupt) None
     = ([], Inl KeyboardInterrupt)"
  by (simp add: is_suitable_programming_issue_llm_def llm_try_def)

section \<open>Parsing the reply of the model\<close>
























end
